theory Spec2Isabelle
  imports Complex_Main "HOL-Library.Multiset"
begin

section \<open>JavaScript values used by the extension\<close>

text \<open>
  Strings are lists of characters. A character stands for one UTF-16 code unit below 256,
  which is enough for the ASCII markup the code looks for. Numbers that the code only
  counts with are \<open>nat\<close> or \<open>int\<close>. The progress percentage is a JavaScript double, taken
  here as a real number: the quotient and the product are computed exactly where JavaScript
  rounds each to a double. The values met in the examples (25, 20 and 40) are the same
  either way; others are not (23 checked of 40 is 57.5 here and 57.49999999999999 in
  JavaScript), and nothing below rests on such a value.
\<close>

type_synonym addr = nat

text \<open>\<open>String(n)\<close> for an integer: its decimal digits, with a sign when negative.\<close>

definition digit :: "nat \<Rightarrow> char" where
  "digit d = ''0123456789'' ! d"

function toString_nat :: "nat \<Rightarrow> string" where
  "toString_nat n =
     (let q = n div 10; d = digit (n mod 10)
      in if q = 0 then [d] else toString_nat q @ [d])"
  by pat_completeness auto
termination
proof (relation "measure id", goal_cases)
  case 1
  show ?case by simp
next
  case (2 n q d)
  then have "n div 10 < n" by (intro div_less_dividend) auto
  with 2 show ?case by simp
qed

declare toString_nat.simps [simp del]

definition toString_int :: "int \<Rightarrow> string" where
  "toString_int i = (if 0 \<le> i then toString_nat (nat i) else CHR ''-'' # toString_nat (nat (- i)))"

text \<open>\<open>Math.round\<close>: the nearest integer, a tie going up.\<close>

definition Math_round :: "real \<Rightarrow> int" where
  "Math_round x = \<lfloor>x + 1 / 2\<rfloor>"

text \<open>\<open>a || ''\<close> on a string that may be \<open>null\<close> or \<open>undefined\<close>.\<close>

definition or_empty :: "string option \<Rightarrow> string" where
  "or_empty s = (case s of None \<Rightarrow> [] | Some t \<Rightarrow> t)"

text \<open>A value that may be \<open>undefined\<close>, inside a template literal.\<close>

definition template :: "string option \<Rightarrow> string" where
  "template s = (case s of None \<Rightarrow> ''undefined'' | Some t \<Rightarrow> t)"

section \<open>Regular expressions\<close>

text \<open>
  The regular expressions of the source are sequences of assertions (\<open>^\<close>, \<open>$\<close> under the
  \<open>m\<close> flag), single characters of a class, and greedy \<open>*\<close> and \<open>+\<close> over a class,
  some of them in a capture group. \<open>rx_match\<close> is the backtracking matcher of ECMAScript
  for such a sequence: each item proposes the lengths it can consume, the longest first,
  and the first length for which the rest of the pattern matches wins. The matcher works
  on the text that is left and on the character before it (which \<open>^\<close> inspects).
\<close>

definition isLineTerminator :: "char \<Rightarrow> bool" where
  "isLineTerminator c = (c = CHR 0x0A \<or> c = CHR 0x0D)"

definition isWhiteSpace :: "char \<Rightarrow> bool" where
  "isWhiteSpace c = (c = CHR 0x09 \<or> c = CHR 0x0A \<or> c = CHR 0x0B \<or> c = CHR 0x0C
      \<or> c = CHR 0x0D \<or> c = CHR '' '' \<or> c = CHR 0xA0)"

datatype cls = Ws | Dot | Lit char | OneOf string

fun cls_match :: "cls \<Rightarrow> char \<Rightarrow> bool" where
  "cls_match Ws c = isWhiteSpace c"
| "cls_match Dot c = (\<not> isLineTerminator c)"
| "cls_match (Lit d) c = (c = d)"
| "cls_match (OneOf ds) c = (c \<in> set ds)"

datatype rx = Bol | Eol | Chr cls | Star cls | Plus cls | Group rx

fun cands :: "rx \<Rightarrow> char option \<Rightarrow> string \<Rightarrow> nat list" where
  "cands Bol prev s =
     (if (case prev of None \<Rightarrow> True | Some c \<Rightarrow> isLineTerminator c) then [0] else [])"
| "cands Eol prev s =
     (if (case s of [] \<Rightarrow> True | c # _ \<Rightarrow> isLineTerminator c) then [0] else [])"
| "cands (Chr k) prev s = (case s of [] \<Rightarrow> [] | c # _ \<Rightarrow> if cls_match k c then [1] else [])"
| "cands (Star k) prev s = rev [0 ..< Suc (length (takeWhile (cls_match k) s))]"
| "cands (Plus k) prev s = rev [1 ..< Suc (length (takeWhile (cls_match k) s))]"
| "cands (Group r) prev s = cands r prev s"

fun isGroup :: "rx \<Rightarrow> bool" where
  "isGroup (Group r) = True"
| "isGroup r = False"

fun first_some :: "'a option list \<Rightarrow> 'a option" where
  "first_some [] = None"
| "first_some (None # xs) = first_some xs"
| "first_some (Some x # xs) = Some x"

definition advance :: "char option \<Rightarrow> string \<Rightarrow> char option" where
  "advance prev consumed = (if consumed = [] then prev else Some (last consumed))"

text \<open>
  A match: the captured groups in order, the last character consumed (the character
  before \<open>lastIndex\<close>) and the text from \<open>lastIndex\<close> on.
\<close>

record rmatch =
  captures :: "string list"
  before :: "char option"
  rest :: string

primrec rx_match :: "rx list \<Rightarrow> char option \<Rightarrow> string \<Rightarrow> string list \<Rightarrow> rmatch option" where
  "rx_match [] prev s caps = Some \<lparr>captures = caps, before = prev, rest = s\<rparr>"
| "rx_match (r # rs) prev s caps =
     first_some (map (\<lambda>k. rx_match rs (advance prev (take k s)) (drop k s)
                              (if isGroup r then caps @ [take k s] else caps))
                     (cands r prev s))"

text \<open>\<open>RegExp.prototype.exec\<close>: the leftmost position from \<open>lastIndex\<close> on where the pattern matches.\<close>

fun rx_exec :: "rx list \<Rightarrow> char option \<Rightarrow> string \<Rightarrow> rmatch option" where
  "rx_exec re prev [] = rx_match re prev [] []"
| "rx_exec re prev (c # cs) =
     (case rx_match re prev (c # cs) [] of
        Some m \<Rightarrow> Some m
      | None \<Rightarrow> rx_exec re (Some c) cs)"

text \<open>The pattern of \<open>parseCheckboxes\<close>: \<^verbatim>\<open>/^(\s*)-\s*\[([ x])\]\s*(.+)$/gm\<close>.\<close>

definition checkboxRegex :: "rx list" where
  "checkboxRegex = [Bol, Group (Star Ws), Chr (Lit CHR ''-''), Star Ws, Chr (Lit CHR ''[''),
     Group (Chr (OneOf '' x'')), Chr (Lit CHR '']''), Star Ws, Group (Plus Dot), Eol]"

subsection \<open>A match of a pattern that consumes a character shortens the text\<close>

fun consuming :: "rx \<Rightarrow> bool" where
  "consuming (Chr k) = True"
| "consuming (Plus k) = True"
| "consuming (Group r) = consuming r"
| "consuming r = False"

lemma first_some_SomeD: "first_some xs = Some m \<Longrightarrow> Some m \<in> set xs"
  by (induction xs rule: first_some.induct) auto

lemma rx_match_pick:
  assumes "rx_match (r # rs) prev s caps = Some m"
  shows "\<exists>k \<in> set (cands r prev s). \<exists>prev' caps'. rx_match rs prev' (drop k s) caps' = Some m"
proof -
  from assms
  have "Some m \<in> set (map (\<lambda>k. rx_match rs (advance prev (take k s)) (drop k s)
                              (if isGroup r then caps @ [take k s] else caps)) (cands r prev s))"
    by (auto dest: first_some_SomeD)
  then obtain k where "k \<in> set (cands r prev s)"
    and "rx_match rs (advance prev (take k s)) (drop k s)
            (if isGroup r then caps @ [take k s] else caps) = Some m"
    by auto
  then show ?thesis by blast
qed

lemma rx_match_length: "rx_match re prev s caps = Some m \<Longrightarrow> length (rest m) \<le> length s"
proof (induction re arbitrary: prev s caps)
  case Nil
  then show ?case by auto
next
  case (Cons r rs)
  from rx_match_pick [OF Cons.prems] obtain k prev' caps'
    where "rx_match rs prev' (drop k s) caps' = Some m" by blast
  from Cons.IH [OF this] show ?case by simp
qed

lemma cands_consuming:
  "consuming r \<Longrightarrow> k \<in> set (cands r prev s) \<Longrightarrow> 0 < k \<and> k \<le> length s"
proof (induction r)
  case (Chr c)
  then show ?case by (cases s) (auto split: if_splits)
next
  case (Plus c)
  have "length (takeWhile (cls_match c) s) \<le> length s" by (rule length_takeWhile_le)
  with Plus show ?case by auto
qed auto

lemma rx_match_shorter:
  "rx_match re prev s caps = Some m \<Longrightarrow> list_ex consuming re \<Longrightarrow> length (rest m) < length s"
proof (induction re arbitrary: prev s caps)
  case Nil
  then show ?case by simp
next
  case (Cons r rs)
  from rx_match_pick [OF Cons.prems(1)] obtain k prev' caps'
    where k: "k \<in> set (cands r prev s)" and m: "rx_match rs prev' (drop k s) caps' = Some m"
    by blast
  show ?case
  proof (cases "consuming r")
    case True
    from cands_consuming [OF True k] rx_match_length [OF m] show ?thesis by auto
  next
    case False
    with Cons.prems(2) have "list_ex consuming rs" by simp
    from Cons.IH [OF m this] show ?thesis by simp
  qed
qed

lemma rx_exec_shorter:
  "rx_exec re prev s = Some m \<Longrightarrow> list_ex consuming re \<Longrightarrow> length (rest m) < length s"
proof (induction re prev s rule: rx_exec.induct)
  case (1 re prev)
  then show ?case using rx_match_shorter by fastforce
next
  case (2 re prev c cs)
  show ?case
  proof (cases "rx_match re prev (c # cs) []")
    case None
    with 2 show ?thesis by fastforce
  next
    case (Some m')
    with 2 show ?thesis using rx_match_shorter by fastforce
  qed
qed

lemma checkbox_exec_shorter:
  assumes "rx_exec checkboxRegex prev s = Some m"
  shows "length (rest m) < length s"
  using rx_exec_shorter [OF assms] by (simp add: checkboxRegex_def)

section \<open>The tree of issue nodes (GitHubIssue.ts)\<close>

text \<open>
  The fields of an issue object that the code reads or writes. \<open>number\<close> is a number for
  an item of the remote listing and a string for a synthesized node; \<open>pull_request\<close>
  records whether that field is present (truthy). The record update
  \<open>iss\<lparr>title := \<dots>\<rparr>\<close> is the object spread \<^verbatim>\<open>{...this.issue, title: \<dots>}\<close>.
\<close>

datatype issue_number = Num int | Str string

fun number_str :: "issue_number \<Rightarrow> string" where
  "number_str (Num n) = toString_int n"
| "number_str (Str s) = s"

record IssueRecord =
  number :: issue_number
  title :: "string option"
  body :: "string option"
  state :: "string option"
  pull_request :: bool

datatype NodeType = Issue | PullRequest | ProgressBar
datatype TreeItemCollapsibleState = CollapsibleNone | Collapsed | Expanded
datatype TreeItemCheckboxState = Unchecked | Checked
datatype ThemeIcon = ThemeIcon string string

text \<open>The SVG text of the progress bar is a fixed template around these three numbers.\<close>

record Svg =
  width :: nat
  height :: nat
  fillWidth :: int

text \<open>
  A \<open>GitHubIssue\<close> object. Objects live in a store, a list indexed by address, because
  the code shares them: a child is in its parent's \<open>children\<close> array and points back with
  \<open>parent\<close>, and \<open>progressBar\<close> is the same object as the first child. \<open>new\<close> appends to
  the store. The \<open>command\<close> member (a constant) is left out.
\<close>

record GitHubIssue =
  label :: string
  collapsibleState :: TreeItemCollapsibleState
  issue :: IssueRecord
  type :: NodeType
  parent :: "addr option"
  isCheckbox :: bool
  checked :: bool
  children :: "addr list"
  progress :: real
  progressBar :: "addr option"
  tooltip :: "string option"
  description :: "string option"
  iconPath :: "ThemeIcon option"
  checkboxState :: "TreeItemCheckboxState option"
  contextValue :: "string option"
  svgProgress :: "Svg option"

type_synonym heap = "GitHubIssue list"

definition modify :: "addr \<Rightarrow> (GitHubIssue \<Rightarrow> GitHubIssue) \<Rightarrow> heap \<Rightarrow> heap" where
  "modify a f h = h[a := f (h ! a)]"

definition getIcon :: "GitHubIssue \<Rightarrow> ThemeIcon option" where
  "getIcon n =
     (if isCheckbox n then None
      else if type n = PullRequest then
        (if state (issue n) = Some ''open''
         then Some (ThemeIcon ''git-pull-request'' ''charts.green'')
         else Some (ThemeIcon ''git-pull-request'' ''charts.purple''))
      else
        (if state (issue n) = Some ''open''
         then Some (ThemeIcon ''issues'' ''charts.green'')
         else Some (ThemeIcon ''issue-closed'' ''charts.red'')))"

definition getCheckboxState :: "GitHubIssue \<Rightarrow> TreeItemCheckboxState" where
  "getCheckboxState n = (if checked n then Checked else Unchecked)"

definition createSvgProgressBar :: "real \<Rightarrow> Svg" where
  "createSvgProgressBar p =
     \<lparr>width = 200, height = 10, fillWidth = Math_round ((p / 100) * 200)\<rparr>"

definition progressTooltip :: "real \<Rightarrow> string" where
  "progressTooltip p = ''Progress: '' @ toString_int (Math_round p) @ ''%''"

text \<open>
  The constructor, \<open>parseCheckboxes\<close>, \<open>calculateProgress\<close> and \<open>updateProgressBar\<close> call
  each other. \<open>parseCheckboxes_loop\<close> is the \<open>while\<close> loop of \<open>parseCheckboxes\<close>: its
  arguments are \<open>this\<close>, \<open>this.issue\<close>, the state of the regular expression (the character
  before \<open>lastIndex\<close> and the text from there on) and \<open>index\<close>.
\<close>

function new_GitHubIssue ::
    "string \<Rightarrow> TreeItemCollapsibleState \<Rightarrow> IssueRecord \<Rightarrow> NodeType \<Rightarrow> addr option \<Rightarrow> bool
      \<Rightarrow> bool \<Rightarrow> heap \<Rightarrow> addr \<times> heap"
  and parseCheckboxes_loop ::
    "addr \<Rightarrow> IssueRecord \<Rightarrow> char option \<Rightarrow> string \<Rightarrow> nat \<Rightarrow> heap \<Rightarrow> heap"
  and calculateProgress :: "addr \<Rightarrow> heap \<Rightarrow> heap"
  and updateProgressBar :: "addr \<Rightarrow> heap \<Rightarrow> heap"
where
  "new_GitHubIssue lbl cs iss ty par isCb chk h =
     (let this = length h;
          h0 = h @ [\<lparr>label = lbl, collapsibleState = cs, issue = iss, type = ty, parent = par,
                     isCheckbox = isCb, checked = chk, children = [], progress = 0,
                     progressBar = None, tooltip = None, description = None, iconPath = None,
                     checkboxState = None, contextValue = None, svgProgress = None\<rparr>]
      in if ty \<noteq> ProgressBar then
           let h1 = modify this (\<lambda>n. n\<lparr>tooltip := Some (''#'' @ number_str (number iss) @ '': ''
                                                           @ template (title iss)),
                                          description := Some (''#'' @ number_str (number iss))\<rparr>) h0;
               iss' = iss\<lparr>body := Some (or_empty (body iss))\<rparr>;
               h2 = modify this (\<lambda>n. n\<lparr>issue := iss'\<rparr>) h1;
               h3 = modify this (\<lambda>n. n\<lparr>iconPath := getIcon n\<rparr>) h2;
               h4 = (if isCb
                     then modify this (\<lambda>n. n\<lparr>checkboxState := Some (getCheckboxState n),
                                                  contextValue := Some ''checkbox'',
                                                  description := Some ''''\<rparr>) h3
                     else h3);
               h5 = parseCheckboxes_loop this iss' None (or_empty (body iss)) 0 h4;
               h6 = modify this (\<lambda>n. n\<lparr>collapsibleState :=
                                      (if length (children n) > 0 then Expanded else CollapsibleNone)\<rparr>) h5;
               h7 = (if length (children (h6 ! this)) > 0 then calculateProgress this h6 else h6)
           in (this, h7)
         else
           (this, modify this (\<lambda>n. n\<lparr>tooltip := Some (progressTooltip (progress n))\<rparr>) h0))"
| "parseCheckboxes_loop this iss prev s index h =
     (case rx_exec checkboxRegex prev s of
        None \<Rightarrow> h
      | Some m \<Rightarrow>
          let chk = (captures m ! 1 = ''x'');
              txt = captures m ! 2;
              childIssue = iss\<lparr>title := Some txt, body := Some '''',
                              number := Str (number_str (number iss) @ ''.'' @ toString_nat (index + 1)),
                              state := Some (if chk then ''closed'' else ''open'')\<rparr>;
              (child, h1) = new_GitHubIssue txt CollapsibleNone childIssue Issue (Some this) True chk h;
              h2 = modify this (\<lambda>n. n\<lparr>children := children n @ [child]\<rparr>) h1
          in parseCheckboxes_loop this iss (before m) (rest m) (index + 1) h2)"
| "calculateProgress this h =
     (let totalCheckboxes = length (children (h ! this));
          checkedCheckboxes = length (filter (\<lambda>child. checked (h ! child)) (children (h ! this)));
          h1 = modify this (\<lambda>n. n\<lparr>progress :=
                 (if totalCheckboxes > 0
                  then (real checkedCheckboxes / real totalCheckboxes) * 100 else 0)\<rparr>) h
      in updateProgressBar this h1)"
| "updateProgressBar this h =
     (let svgProgressBar = createSvgProgressBar (progress (h ! this));
          (pb, h2) =
             (case progressBar (h ! this) of
                None \<Rightarrow>
                  (let (pb, h1) = new_GitHubIssue ''Progress'' CollapsibleNone
                         \<lparr>number = Str (number_str (number (issue (h ! this))) @ ''.progress''),
                          title = None, body = None, state = None, pull_request = False\<rparr>
                         ProgressBar (Some this) False False h
                   in (pb, modify this (\<lambda>n. n\<lparr>progressBar := Some pb,
                                                   children := pb # children n\<rparr>) h1))
              | Some pb \<Rightarrow> (pb, h))
      in modify pb (\<lambda>n. n\<lparr>progress := progress (h2 ! this),
                            tooltip := Some (progressTooltip (progress (h2 ! this))),
                            svgProgress := Some svgProgressBar\<rparr>) h2)"
  by pat_completeness auto
termination
proof (relation "measure (\<lambda>x. case x of
           Inl (Inl (lbl, cs, iss, ty, par, isCb, chk, h)) \<Rightarrow>
             (if ty = ProgressBar then 0 else 2 * length (or_empty (body iss)) + 4)
         | Inl (Inr (this, iss, prev, s, index, h)) \<Rightarrow> 2 * length s + 3
         | Inr (Inl (this, h)) \<Rightarrow> 2
         | Inr (Inr (this, h)) \<Rightarrow> 1)", goal_cases)
  case 1
  show ?case by simp
next
  case 2
  from 2(3) show ?case by simp
next
  case 3
  from 3(3) show ?case by simp
next
  case 4
  from checkbox_exec_shorter [OF 4(1)] 4(4) show ?case by (simp add: or_empty_def)
next
  case 5
  from checkbox_exec_shorter [OF 5(1)] show ?case by simp
next
  case 6
  show ?case by simp
next
  case 7
  show ?case by simp
qed

declare new_GitHubIssue.simps [simp del]
declare parseCheckboxes_loop.simps [simp del]
declare calculateProgress.simps [simp del]
declare updateProgressBar.simps [simp del]

definition toggleCheckbox :: "addr \<Rightarrow> heap \<Rightarrow> heap" where
  "toggleCheckbox this h =
     (if isCheckbox (h ! this) then
        let h1 = modify this (\<lambda>n. n\<lparr>checked := \<not> checked n\<rparr>) h;
            h2 = modify this (\<lambda>n. n\<lparr>checkboxState := Some (getCheckboxState n)\<rparr>) h1
        in (case parent (h2 ! this) of
              None \<Rightarrow> h2
            | Some p \<Rightarrow> calculateProgress p h2)
      else h)"

section \<open>The issue service (GitHubIssueService.ts)\<close>

text \<open>
  The service runs on one event loop. An asynchronous method is modelled as a function on
  the state of the service that runs to completion; an error it throws (a rejected
  promise) is the value \<open>Inl\<close>. A call that the code does not await is recorded in
  \<open>background\<close> and runs later (\<open>run_background\<close>). What lies outside the repository is a
  component of the state: the workspace folder and what \<open>git.getRemotes\<close> answers, the
  Octokit client (absent until authentication), the workspace storage, the output channel,
  the error messages shown, the clock (\<open>Date.now()\<close>, which stands still during one
  method), the events fired on \<open>_onDataUpdated\<close>, and the listing requests sent.
\<close>

datatype error = Error string

record CachedIssues =
  timestamp :: int
  issues :: "IssueRecord list"
  pullRequests :: "IssueRecord list"

type_synonym items = "IssueRecord list \<times> IssueRecord list"

record GitRemote =
  remote_name :: string
  refs_fetch :: string
  refs_push :: string

datatype ItemState = StateOpen | StateClosed

text \<open>
  The parameters of \<open>octokit.issues.listForRepo\<close>. \<open>page\<close> is the page asked for; the
  remote answers with the first page when it is absent.
\<close>

record ListRequest =
  owner :: string
  repo :: string
  item_state :: ItemState
  per_page :: nat
  page :: "nat option"

record UpdateRequest =
  update_owner :: string
  update_repo :: string
  issue_number :: issue_number
  update_body :: string

record Octokit =
  listForRepo :: "ListRequest \<Rightarrow> error + IssueRecord list"
  issues_update :: "UpdateRequest \<Rightarrow> error option"

datatype Task = RefreshInBackground | FetchAndUpdateInBackground

record Service =
  workspaceRoot :: "string option"
  gitRemotes :: "error + GitRemote list"
  octokit :: "Octokit option"
  workspaceState :: "string \<rightharpoonup> CachedIssues"
  outputChannel :: "string list"
  errorMessages :: "string list"
  clock :: int
  onDataUpdated :: "items list"
  background :: "Task list"
  listCalls :: "ListRequest list"

definition appendLine :: "string \<Rightarrow> Service \<Rightarrow> Service" where
  "appendLine line s = s\<lparr>outputChannel := outputChannel s @ [line]\<rparr>"

definition errorMessage :: "error \<Rightarrow> string" where
  "errorMessage e = (case e of Error msg \<Rightarrow> msg)"

definition handleError :: "string \<Rightarrow> error \<Rightarrow> Service \<Rightarrow> Service" where
  "handleError message e s =
     (let s1 = appendLine (message @ '': '' @ errorMessage e) s
      in s1\<lparr>errorMessages := errorMessages s1 @ [message @ ''. Check output for details.'']\<rparr>)"

text \<open>The pattern of \<open>getGitHubRepoInfo\<close>: \<^verbatim>\<open>/github\.com[:/](.+)\/(.+)\.git/\<close>.\<close>

definition repoRegex :: "rx list" where
  "repoRegex = map (\<lambda>c. Chr (Lit c)) ''github.com'' @
     [Chr (OneOf '':/''), Group (Plus Dot), Chr (Lit CHR ''/''), Group (Plus Dot)] @
     map (\<lambda>c. Chr (Lit c)) ''.git''"

definition getGitHubRepoInfo :: "Service \<Rightarrow> error + (string \<times> string)" where
  "getGitHubRepoInfo s =
     (if or_empty (workspaceRoot s) = [] then Inl (Error ''No workspace root found'')
      else case gitRemotes s of
        Inl e \<Rightarrow> Inl e
      | Inr remotes \<Rightarrow>
          (case find (\<lambda>remote. remote_name remote = ''origin'') remotes of
             None \<Rightarrow> Inl (Error ''No origin remote found'')
           | Some originRemote \<Rightarrow>
               (case rx_exec repoRegex None (refs_fetch originRemote) of
                  None \<Rightarrow> Inl (Error ''Unable to parse GitHub repository information'')
                | Some m \<Rightarrow> Inr (captures m ! 0, captures m ! 1))))"

definition getCacheKey :: "Service \<Rightarrow> error + string" where
  "getCacheKey s =
     (case getGitHubRepoInfo s of
        Inl e \<Rightarrow> Inl e
      | Inr (ownr, rep) \<Rightarrow> Inr (''githubIssues_'' @ ownr @ ''_'' @ rep))"

definition fetchItems ::
  "string \<Rightarrow> string \<Rightarrow> ItemState \<Rightarrow> Service \<Rightarrow> (error + IssueRecord list) \<times> Service" where
  "fetchItems ownr rep st s =
     (case octokit s of
        None \<Rightarrow> (Inl (Error ''GitHub API is not initialized''), s)
      | Some client \<Rightarrow>
          (let request = \<lparr>owner = ownr, repo = rep, item_state = st, per_page = 100, page = None\<rparr>
           in (listForRepo client request, s\<lparr>listCalls := listCalls s @ [request]\<rparr>)))"

definition getFallbackItems :: "Service \<Rightarrow> (error + items) \<times> Service" where
  "getFallbackItems s =
     (case getCacheKey s of
        Inl e \<Rightarrow> (Inl e, s)
      | Inr cacheKey \<Rightarrow>
          (case workspaceState s cacheKey of
             Some cachedData \<Rightarrow>
               (Inr (issues cachedData, pullRequests cachedData),
                appendLine ''Using fallback cached issues and pull requests due to fetch error'' s)
           | None \<Rightarrow> (Inr ([], []), s)))"

text \<open>The \<open>catch\<close> block of \<open>fetchAndCacheIssues\<close>.\<close>

definition fetchAndCacheIssues_catch :: "error \<Rightarrow> Service \<Rightarrow> (error + items) \<times> Service" where
  "fetchAndCacheIssues_catch e s =
     getFallbackItems (handleError ''Error fetching GitHub issues and pull requests'' e s)"

definition fetchAndCacheIssues :: "Service \<Rightarrow> (error + items) \<times> Service" where
  "fetchAndCacheIssues s =
     (case getGitHubRepoInfo s of
        Inl e \<Rightarrow> fetchAndCacheIssues_catch e s
      | Inr (ownr, rep) \<Rightarrow>
          (case fetchItems ownr rep StateOpen s of
             (Inl e, s1) \<Rightarrow> fetchAndCacheIssues_catch e s1
           | (Inr openItems, s1) \<Rightarrow>
               (case fetchItems ownr rep StateClosed s1 of
                  (Inl e, s2) \<Rightarrow> fetchAndCacheIssues_catch e s2
                | (Inr closedItems, s2) \<Rightarrow>
                    (let allItems = openItems @ closedItems;
                         issueItems = filter (\<lambda>item. \<not> pull_request item) allItems;
                         prItems = filter (\<lambda>item. pull_request item) allItems;
                         cachedData = \<lparr>timestamp = clock s2, issues = issueItems, pullRequests = prItems\<rparr>
                     in case getCacheKey s2 of
                          Inl e \<Rightarrow> fetchAndCacheIssues_catch e s2
                        | Inr cacheKey \<Rightarrow>
                            (let s3 = s2\<lparr>workspaceState := (workspaceState s2)(cacheKey \<mapsto> cachedData)\<rparr>;
                                 s4 = appendLine (''Fetched and cached '' @ toString_nat (length issueItems)
                                        @ '' GitHub issues and '' @ toString_nat (length prItems)
                                        @ '' pull requests for '' @ ownr @ ''/'' @ rep) s3;
                                 s5 = s4\<lparr>onDataUpdated := onDataUpdated s4 @ [(issueItems, prItems)]\<rparr>
                             in (Inr (issueItems, prItems), s5))))))"

text \<open>
  \<open>this.refreshInBackground()\<close> without \<open>await\<close>: the method logs its first line at once
  and the rest of it runs in the background.
\<close>

definition start_refreshInBackground :: "Service \<Rightarrow> Service" where
  "start_refreshInBackground s =
     (let s1 = appendLine ''Starting background refresh of GitHub issues'' s
      in s1\<lparr>background := background s1 @ [RefreshInBackground]\<rparr>)"

definition getCachedOrFetchIssues :: "Service \<Rightarrow> (error + items) \<times> Service" where
  "getCachedOrFetchIssues s =
     (case getCacheKey s of
        Inl e \<Rightarrow> (Inl e, s)
      | Inr cacheKey \<Rightarrow>
          (let fresh =
                 (case workspaceState s cacheKey of
                    None \<Rightarrow> None
                  | Some cachedData \<Rightarrow>
                      (let cacheAge = clock s - timestamp cachedData;
                           cacheExpirationTime = 30 * 60 * 1000
                       in if cacheAge < cacheExpirationTime then
                            (let s1 = appendLine ''Using cached GitHub issues and pull requests'' s;
                                 s2 = (if cacheAge > 5 * 60 * 1000
                                       then start_refreshInBackground s1 else s1)
                             in Some (Inr (issues cachedData, pullRequests cachedData), s2))
                          else None))
           in case fresh of
                Some r \<Rightarrow> r
              | None \<Rightarrow>
                  (if octokit s = None
                   then (Inr ([], []), appendLine ''Not authenticated yet, returning empty result'' s)
                   else fetchAndCacheIssues s)))"

definition getCachedIssues :: "Service \<Rightarrow> (error + items) \<times> Service" where
  "getCachedIssues s =
     (case getCacheKey s of
        Inl e \<Rightarrow> (Inl e, s)
      | Inr cacheKey \<Rightarrow>
          (case workspaceState s cacheKey of
             Some cachedData \<Rightarrow>
               (Inr (issues cachedData, pullRequests cachedData),
                appendLine ''Using cached GitHub issues and pull requests'' s)
           | None \<Rightarrow> (Inr ([], []), s)))"

definition loadCacheAndFetch :: "Service \<Rightarrow> (error + items) \<times> Service" where
  "loadCacheAndFetch s =
     (case getCachedIssues s of
        (Inl e, s1) \<Rightarrow> (Inl e, s1)
      | (Inr cachedData, s1) \<Rightarrow>
          (Inr cachedData, s1\<lparr>background := background s1 @ [FetchAndUpdateInBackground]\<rparr>))"

definition fetchAndUpdateInBackground :: "Service \<Rightarrow> Service" where
  "fetchAndUpdateInBackground s =
     (case fetchAndCacheIssues s of
        (Inr (issueItems, prItems), s1) \<Rightarrow> s1\<lparr>onDataUpdated := onDataUpdated s1 @ [(issueItems, prItems)]\<rparr>
      | (Inl e, s1) \<Rightarrow>
          handleError ''Error fetching and updating GitHub issues and pull requests'' e s1)"

text \<open>
  A call started in the background, run to its end. The promise of \<open>refreshInBackground\<close>
  is dropped by its callers, so an error it ends with reaches no one.
\<close>

fun run_background :: "Task \<Rightarrow> Service \<Rightarrow> Service" where
  "run_background RefreshInBackground s = snd (fetchAndCacheIssues s)"
| "run_background FetchAndUpdateInBackground s = fetchAndUpdateInBackground s"

text \<open>The interval timer of \<open>startBackgroundRefresh\<close> fires: \<open>refreshInBackground\<close> from its start.\<close>

definition timer_refresh :: "Service \<Rightarrow> Service" where
  "timer_refresh s =
     run_background RefreshInBackground
       (appendLine ''Starting background refresh of GitHub issues'' s)"

definition clearCache :: "Service \<Rightarrow> (error + unit) \<times> Service" where
  "clearCache s =
     (case getCacheKey s of
        Inl e \<Rightarrow> (Inl e, s)
      | Inr cacheKey \<Rightarrow>
          (Inr (), appendLine ''Cleared GitHub issues cache for the current workspace''
                     (s\<lparr>workspaceState := (workspaceState s)(cacheKey := None)\<rparr>)))"

definition updateIssueBody ::
  "string \<Rightarrow> string \<Rightarrow> issue_number \<Rightarrow> string \<Rightarrow> Service \<Rightarrow> (error + unit) \<times> Service" where
  "updateIssueBody ownr rep issueNumber bdy s =
     (case octokit s of
        None \<Rightarrow> (Inl (Error ''GitHub API is not initialized''), s)
      | Some client \<Rightarrow>
          (case issues_update client
                  \<lparr>update_owner = ownr, update_repo = rep, issue_number = issueNumber,
                   update_body = bdy\<rparr> of
             None \<Rightarrow> (Inr (), appendLine (''Updated body of issue #'' @ number_str issueNumber) s)
           | Some e \<Rightarrow>
               (Inl e, handleError (''Failed to update body of issue #'' @ number_str issueNumber) e s)))"

section \<open>Writing a toggled checkbox back (extension.ts)\<close>

text \<open>
  \<open>parentBody.replace(new RegExp(pattern, 'gm'), replacement)\<close>, where every character of
  the pattern that is special in a regular expression is escaped: the pattern matches its
  own text, and every occurrence, from left to right, is replaced. In the replacement
  text \<open>$$\<close>, \<open>$&\<close>, \<open>$`\<close> and \<open>$'\<close> stand for a dollar sign, the matched text, the text
  before the match and the text after it (the pattern has no groups, so \<open>$1\<close> stands
  for itself).
\<close>

fun expandReplacement :: "string \<Rightarrow> string \<Rightarrow> string \<Rightarrow> string \<Rightarrow> string" where
  "expandReplacement [] matched pre post = []"
| "expandReplacement [c] matched pre post = [c]"
| "expandReplacement (c # d # r) matched pre post =
     (if c = CHR ''$'' \<and> d = CHR ''$'' then CHR ''$'' # expandReplacement r matched pre post
      else if c = CHR ''$'' \<and> d = CHR ''&'' then matched @ expandReplacement r matched pre post
      else if c = CHR ''$'' \<and> d = CHR 0x60 then pre @ expandReplacement r matched pre post
      else if c = CHR ''$'' \<and> d = CHR 0x27 then post @ expandReplacement r matched pre post
      else c # expandReplacement (d # r) matched pre post)"

function replaceAll :: "string \<Rightarrow> string \<Rightarrow> string \<Rightarrow> string \<Rightarrow> string" where
  "replaceAll pat rep pre s =
     (if pat \<noteq> [] \<and> take (length pat) s = pat
      then expandReplacement rep pat pre (drop (length pat) s)
             @ replaceAll pat rep (pre @ pat) (drop (length pat) s)
      else case s of
             [] \<Rightarrow> []
           | c # cs \<Rightarrow> c # replaceAll pat rep (pre @ [c]) cs)"
  by pat_completeness auto
termination
proof (relation "measure (\<lambda>(pat, rep, pre, s). length s)", goal_cases)
  case 1
  show ?case by simp
next
  case (2 pat rep pre s)
  then have "length (take (length pat) s) = length pat" by simp
  then have "length pat \<le> length s" by simp
  moreover from 2 have "0 < length pat" by simp
  ultimately have "length s - length pat < length s" by arith
  then show ?case by simp
next
  case 3
  then show ?case by simp
qed

declare replaceAll.simps [simp del]

datatype TreeElement = IssueTreeItemElement | GitHubIssueElement addr

text \<open>
  The provider: its tree, the module's \<open>issueService\<close>, the elements passed to
  \<open>_onDidChangeTreeData.fire\<close> and the error messages shown. The update of the issue
  panel that ends the handler is left out.
\<close>

record Provider =
  tree :: heap
  issueService :: "Service option"
  treeDataChanged :: "addr list"
  shownErrors :: "string list"

definition updatedBody :: "heap \<Rightarrow> addr \<Rightarrow> addr \<Rightarrow> TreeItemCheckboxState \<Rightarrow> string" where
  "updatedBody h item par st =
     (let chk = (st = Checked);
          parentBody = or_empty (body (issue (h ! par)));
          itemLabel = label (h ! item)
      in replaceAll (''- ['' @ (if chk then '' '' else ''x'') @ ''] '' @ itemLabel)
                    (''- ['' @ (if chk then ''x'' else '' '') @ ''] '' @ itemLabel)
                    [] parentBody)"

fun handleCheckboxItem ::
  "TreeElement \<times> TreeItemCheckboxState \<Rightarrow> Provider \<Rightarrow> error option \<times> Provider" where
  "handleCheckboxItem (IssueTreeItemElement, st) p = (None, p)"
| "handleCheckboxItem (GitHubIssueElement item, st) p =
     (case parent (tree p ! item) of
        None \<Rightarrow> (None, p)
      | Some par \<Rightarrow>
          if \<not> isCheckbox (tree p ! item) then (None, p)
          else
            (let chk = (st = Checked);
                 newBody = updatedBody (tree p) item par st
             in case issueService p of
                  None \<Rightarrow>
                    (None, p\<lparr>shownErrors := shownErrors p @ [''GitHub Issue Service is not initialized'']\<rparr>)
                | Some s \<Rightarrow>
                    (case getGitHubRepoInfo s of
                       Inl e \<Rightarrow> (Some e, p)
                     | Inr (ownr, rep) \<Rightarrow>
                         (case updateIssueBody ownr rep (number (issue (tree p ! par))) newBody s of
                            (Inl e, s1) \<Rightarrow> (Some e, p\<lparr>issueService := Some s1\<rparr>)
                          | (Inr u, s1) \<Rightarrow>
                              (let h1 = modify par (\<lambda>n. n\<lparr>issue := (issue n)\<lparr>body := Some newBody\<rparr>\<rparr>) (tree p);
                                   h2 = modify item (\<lambda>n. n\<lparr>checked := chk\<rparr>) h1;
                                   h3 = calculateProgress par h2
                               in (None, p\<lparr>issueService := Some s1, tree := h3,
                                             treeDataChanged := treeDataChanged p @ [par]\<rparr>))))))"

text \<open>The \<open>for\<close> loop over the changed items: an error thrown inside it ends the handler.\<close>

fun handleCheckboxChange ::
  "(TreeElement \<times> TreeItemCheckboxState) list \<Rightarrow> Provider \<Rightarrow> error option \<times> Provider" where
  "handleCheckboxChange [] p = (None, p)"
| "handleCheckboxChange (x # xs) p =
     (case handleCheckboxItem x p of
        (Some e, p1) \<Rightarrow> (Some e, p1)
      | (None, p1) \<Rightarrow> handleCheckboxChange xs p1)"

section \<open>Facts about the store\<close>

lemma length_modify [simp]: "length (modify a f h) = length h"
  by (simp add: modify_def)

lemma nth_modify_neq [simp]: "b \<noteq> a \<Longrightarrow> modify a f h ! b = h ! b"
  by (simp add: modify_def)

lemma nth_modify_eq [simp]: "a < length h \<Longrightarrow> modify a f h ! a = f (h ! a)"
  by (simp add: modify_def)

lemma modify_append [simp]: "a < length h \<Longrightarrow> modify a f (h @ xs) = modify a f h @ xs"
  by (simp add: modify_def list_update_append nth_append)

lemma modify_last [simp]: "modify (length h) f (h @ [x]) = h @ [f x]"
  by (simp add: modify_def)

lemma modify_modify [simp]: "modify a g (modify a f h) = modify a (\<lambda>n. g (f n)) h"
  by (cases "a < length h") (simp_all add: modify_def list_update_beyond)

lemma modify_last': "k = length H \<Longrightarrow> modify k f (H @ [x]) = H @ [f x]"
  by (simp add: modify_def)

lemma nth_modify:
  "modify a f h ! c = (if c = a \<and> a < length h then f (h ! a) else h ! c)"
  by (cases "a < length h") (auto simp add: modify_def list_update_beyond)

lemma modify_id: "f (h ! a) = h ! a \<Longrightarrow> modify a f h = h"
  by (simp add: modify_def)

section \<open>What the constructor builds\<close>

text \<open>
  \<open>checkbox_matches\<close> lists the successive results of \<open>exec\<close> on a body, the way the loop
  of \<open>parseCheckboxes\<close> obtains them. The nodes a constructor call appends to the store are
  written out below: a node without sub-items (\<open>leaf_node\<close>), the sub-item of a match
  (\<open>child_node\<close>), the progress node (\<open>progressBar_node\<close>) and a node with sub-items
  (\<open>root_node\<close>).
\<close>

lemma checkbox_match_Nil [simp]: "rx_match checkboxRegex prev [] [] = None"
  by (cases prev) (simp_all add: checkboxRegex_def)

function checkbox_matches :: "char option \<Rightarrow> string \<Rightarrow> rmatch list" where
  "checkbox_matches prev s =
     (case rx_exec checkboxRegex prev s of
        None \<Rightarrow> []
      | Some m \<Rightarrow> m # checkbox_matches (before m) (rest m))"
  by pat_completeness auto
termination
  by (relation "measure (\<lambda>(prev, s). length s)") (auto dest: checkbox_exec_shorter)

declare checkbox_matches.simps [simp del]

definition progressBar_node :: "addr \<Rightarrow> issue_number \<Rightarrow> GitHubIssue" where
  "progressBar_node this n =
     \<lparr>label = ''Progress'', collapsibleState = CollapsibleNone,
      issue = \<lparr>number = Str (number_str n @ ''.progress''), title = None, body = None,
               state = None, pull_request = False\<rparr>,
      type = ProgressBar, parent = Some this, isCheckbox = False, checked = False,
      children = [], progress = 0, progressBar = None,
      tooltip = Some (progressTooltip 0), description = None, iconPath = None,
      checkboxState = None, contextValue = None, svgProgress = None\<rparr>"

lemma new_ProgressBar:
  "new_GitHubIssue ''Progress'' CollapsibleNone
      \<lparr>number = Str (number_str n @ ''.progress''), title = None, body = None,
               state = None, pull_request = False\<rparr> ProgressBar (Some this) False False h
   = (length h, h @ [progressBar_node this n])"
  by (simp add: new_GitHubIssue.simps progressBar_node_def)

definition leaf_node ::
  "string \<Rightarrow> IssueRecord \<Rightarrow> NodeType \<Rightarrow> addr option \<Rightarrow> bool \<Rightarrow> bool \<Rightarrow> GitHubIssue" where
  "leaf_node lbl iss ty par isCb chk =
     \<lparr>label = lbl, collapsibleState = CollapsibleNone,
      issue = iss\<lparr>body := Some (or_empty (body iss))\<rparr>,
      type = ty, parent = par, isCheckbox = isCb, checked = chk,
      children = [], progress = 0, progressBar = None,
      tooltip = Some (''#'' @ number_str (number iss) @ '': '' @ template (title iss)),
      description = Some (if isCb then '''' else ''#'' @ number_str (number iss)),
      iconPath = (if isCb then None
                  else if ty = PullRequest then
                    (if state iss = Some ''open''
                     then Some (ThemeIcon ''git-pull-request'' ''charts.green'')
                     else Some (ThemeIcon ''git-pull-request'' ''charts.purple''))
                  else
                    (if state iss = Some ''open''
                     then Some (ThemeIcon ''issues'' ''charts.green'')
                     else Some (ThemeIcon ''issue-closed'' ''charts.red''))),
      checkboxState = (if isCb then Some (if chk then Checked else Unchecked) else None),
      contextValue = (if isCb then Some ''checkbox'' else None),
      svgProgress = None\<rparr>"

lemma new_before_parse:
  assumes "ty \<noteq> ProgressBar"
  shows "new_GitHubIssue lbl cs iss ty par isCb chk h =
     (let this = length h;
          h5 = parseCheckboxes_loop this (iss\<lparr>body := Some (or_empty (body iss))\<rparr>) None
                 (or_empty (body iss)) 0
                 (h @ [(leaf_node lbl iss ty par isCb chk)\<lparr>collapsibleState := cs\<rparr>]);
          h6 = modify this (\<lambda>n. n\<lparr>collapsibleState :=
                                      (if length (children n) > 0 then Expanded else CollapsibleNone)\<rparr>) h5;
          h7 = (if length (children (h6 ! this)) > 0 then calculateProgress this h6 else h6)
      in (this, h7))"
  using assms
  by (simp add: new_GitHubIssue.simps leaf_node_def getIcon_def getCheckboxState_def Let_def)

lemma new_leaf:
  assumes "ty \<noteq> ProgressBar" and "rx_exec checkboxRegex None (or_empty (body iss)) = None"
  shows "new_GitHubIssue lbl cs iss ty par isCb chk h = (length h, h @ [leaf_node lbl iss ty par isCb chk])"
  using assms
  by (simp add: new_before_parse parseCheckboxes_loop.simps Let_def leaf_node_def)

definition childIssue :: "IssueRecord \<Rightarrow> nat \<Rightarrow> rmatch \<Rightarrow> IssueRecord" where
  "childIssue iss index m =
     iss\<lparr>title := Some (captures m ! 2), body := Some '''',
         number := Str (number_str (number iss) @ ''.'' @ toString_nat (index + 1)),
         state := Some (if captures m ! 1 = ''x'' then ''closed'' else ''open'')\<rparr>"

definition child_node :: "addr \<Rightarrow> IssueRecord \<Rightarrow> nat \<Rightarrow> rmatch \<Rightarrow> GitHubIssue" where
  "child_node this iss index m =
     leaf_node (captures m ! 2) (childIssue iss index m) Issue (Some this) True (captures m ! 1 = ''x'')"

fun child_nodes :: "addr \<Rightarrow> IssueRecord \<Rightarrow> nat \<Rightarrow> rmatch list \<Rightarrow> GitHubIssue list" where
  "child_nodes this iss index [] = []"
| "child_nodes this iss index (m # ms) = child_node this iss index m # child_nodes this iss (index + 1) ms"

lemma length_child_nodes [simp]: "length (child_nodes this iss index ms) = length ms"
  by (induction ms arbitrary: index) auto

lemma new_child:
  "new_GitHubIssue (captures m ! 2) CollapsibleNone (childIssue iss index m) Issue (Some this) True
      (captures m ! 1 = ''x'') h = (length h, h @ [child_node this iss index m])"
  unfolding child_node_def
  by (rule new_leaf) (simp_all add: childIssue_def or_empty_def)

lemma parseCheckboxes_loop_eq:
  "this < length h \<Longrightarrow>
   parseCheckboxes_loop this iss prev s index h =
     modify this (\<lambda>n. n\<lparr>children := children n @
                        [length h ..< length h + length (checkbox_matches prev s)]\<rparr>) h
     @ child_nodes this iss index (checkbox_matches prev s)"
proof (induction prev s arbitrary: index h rule: checkbox_matches.induct)
  case (1 prev s)
  show ?case
  proof (cases "rx_exec checkboxRegex prev s")
    case None
    then have ms: "checkbox_matches prev s = []" by (simp add: checkbox_matches.simps)
    have "modify this (\<lambda>n. n) h = h" by (simp add: modify_def)
    with None ms show ?thesis by (simp add: parseCheckboxes_loop.simps)
  next
    case (Some m)
    then have ms: "checkbox_matches prev s = m # checkbox_matches (before m) (rest m)"
      by (simp add: checkbox_matches.simps)
    let ?h2 = "modify this (\<lambda>n. n\<lparr>children := children n @ [length h]\<rparr>) h @ [child_node this iss index m]"
    have step: "parseCheckboxes_loop this iss prev s index h =
                parseCheckboxes_loop this iss (before m) (rest m) (index + 1) ?h2"
      using Some "1.prems" new_child [of m iss index this h]
      by (simp add: parseCheckboxes_loop.simps [of this iss prev s] Let_def childIssue_def)
    have len: "this < length ?h2" using "1.prems" by simp
    have upt: "[length h ..< length h + length (m # checkbox_matches (before m) (rest m))] =
               length h # [length ?h2 ..< length ?h2 + length (checkbox_matches (before m) (rest m))]"
      by (simp add: upt_conv_Cons del: upt_Suc)
    show ?thesis
      unfolding step "1.IH" [OF Some len] ms upt
      using "1.prems" by (simp del: upt_Suc)
  qed
qed

definition progress_value :: "heap \<Rightarrow> addr \<Rightarrow> real" where
  "progress_value h a =
     (if length (children (h ! a)) > 0
      then (real (length (filter (\<lambda>child. checked (h ! child)) (children (h ! a))))
              / real (length (children (h ! a)))) * 100
      else 0)"

definition bar_update :: "real \<Rightarrow> GitHubIssue \<Rightarrow> GitHubIssue" where
  "bar_update p = (\<lambda>n. n\<lparr>progress := p, tooltip := Some (progressTooltip p),
                       svgProgress := Some (createSvgProgressBar p)\<rparr>)"

lemma calculateProgress_Some:
  assumes "a < length h" and "progressBar (h ! a) = Some pb"
  shows "calculateProgress a h =
           modify pb (bar_update (progress_value h a))
             (modify a (\<lambda>n. n\<lparr>progress := progress_value h a\<rparr>) h)"
  using assms
  by (simp add: calculateProgress.simps updateProgressBar.simps Let_def progress_value_def
      bar_update_def)

lemma calculateProgress_None:
  assumes "a < length h" and "progressBar (h ! a) = None"
  shows "calculateProgress a h =
           modify a (\<lambda>n. n\<lparr>progress := progress_value h a, progressBar := Some (length h),
                               children := length h # children n\<rparr>) h
           @ [bar_update (progress_value h a) (progressBar_node a (number (issue (h ! a))))]"
  using assms
  by (simp add: calculateProgress.simps updateProgressBar.simps Let_def progress_value_def
      bar_update_def new_ProgressBar modify_last' nth_append)

lemma checkbox_matches_Nil_iff:
  "checkbox_matches prev s = [] \<longleftrightarrow> rx_exec checkboxRegex prev s = None"
  by (cases "rx_exec checkboxRegex prev s") (simp_all add: checkbox_matches.simps)

lemma length_filter_map: "length (filter P (map f xs)) = length (filter (\<lambda>x. P (f x)) xs)"
  by (simp add: filter_map comp_def)

lemma nth_block:
  "map ((!) (h @ x # cs @ ys)) [Suc (length h) ..< Suc (length h) + length cs] = cs"
  by (rule nth_equalityI) (simp_all add: nth_append del: upt_Suc)

lemma checked_child_nodes:
  "map checked (child_nodes this iss index ms) = map (\<lambda>m. captures m ! 1 = ''x'') ms"
  by (induction ms arbitrary: index) (simp_all add: child_node_def leaf_node_def)

lemma count_checked_block:
  "length (filter (\<lambda>c. checked ((h @ x # child_nodes this iss index ms @ ys) ! c))
             [Suc (length h) ..< Suc (length h) + length ms])
   = length (filter (\<lambda>m. captures m ! 1 = ''x'') ms)"
proof -
  let ?H = "h @ x # child_nodes this iss index ms @ ys"
  have "length (filter (\<lambda>c. checked (?H ! c)) [Suc (length h) ..< Suc (length h) + length ms])
        = length (filter checked (map ((!) ?H) [Suc (length h) ..< Suc (length h) + length ms]))"
    by (simp only: length_filter_map)
  also have "map ((!) ?H) [Suc (length h) ..< Suc (length h) + length ms] = child_nodes this iss index ms"
    using nth_block [of h x "child_nodes this iss index ms" ys] by (simp del: upt_Suc)
  also have "length (filter checked (child_nodes this iss index ms))
        = length (filter (\<lambda>b. b) (map checked (child_nodes this iss index ms)))"
    by (simp only: length_filter_map)
  also have "\<dots> = length (filter (\<lambda>m. captures m ! 1 = ''x'') ms)"
    by (simp only: checked_child_nodes length_filter_map)
  finally show ?thesis .
qed

definition checked_ratio :: "rmatch list \<Rightarrow> real" where
  "checked_ratio ms =
     (real (length (filter (\<lambda>m. captures m ! 1 = ''x'') ms)) / real (length ms)) * 100"

definition root_node ::
  "addr \<Rightarrow> string \<Rightarrow> IssueRecord \<Rightarrow> NodeType \<Rightarrow> addr option \<Rightarrow> bool \<Rightarrow> bool \<Rightarrow> rmatch list
     \<Rightarrow> GitHubIssue" where
  "root_node n lbl iss ty par isCb chk ms =
     (leaf_node lbl iss ty par isCb chk)
       \<lparr>collapsibleState := Expanded,
        children := (Suc n + length ms) # [Suc n ..< Suc n + length ms],
        progress := checked_ratio ms,
        progressBar := Some (Suc n + length ms)\<rparr>"

lemma new_root:
  assumes ty: "ty \<noteq> ProgressBar"
    and ms: "checkbox_matches None (or_empty (body iss)) = ms" and ne: "ms \<noteq> []"
  shows "new_GitHubIssue lbl cs iss ty par isCb chk h =
     (length h,
      h @ root_node (length h) lbl iss ty par isCb chk ms
        # child_nodes (length h) (iss\<lparr>body := Some (or_empty (body iss))\<rparr>) 0 ms
        @ [bar_update (checked_ratio ms) (progressBar_node (length h) (number iss))])"
proof -
  let ?n = "length h"
  let ?iss = "iss\<lparr>body := Some (or_empty (body iss))\<rparr>"
  let ?l = "(leaf_node lbl iss ty par isCb chk)\<lparr>collapsibleState := cs\<rparr>"
  let ?cn = "child_nodes ?n ?iss 0 ms"
  let ?r6 = "(leaf_node lbl iss ty par isCb chk)\<lparr>collapsibleState := Expanded,
               children := [Suc ?n ..< Suc ?n + length ms]\<rparr>"
  let ?h6 = "h @ ?r6 # ?cn"
  have k: "0 < length ms" using ne by (cases ms) simp_all
  have h5: "parseCheckboxes_loop ?n ?iss None (or_empty (body iss)) 0 (h @ [?l])
            = h @ ?l\<lparr>children := [Suc ?n ..< Suc ?n + length ms]\<rparr> # ?cn"
    using parseCheckboxes_loop_eq [of ?n "h @ [?l]" ?iss None "or_empty (body iss)" 0]
    by (simp add: ms modify_last' leaf_node_def del: upt_Suc)
  have h6: "modify ?n (\<lambda>n. n\<lparr>collapsibleState :=
                 (if length (children n) > 0 then Expanded else CollapsibleNone)\<rparr>)
              (h @ ?l\<lparr>children := [Suc ?n ..< Suc ?n + length ms]\<rparr> # ?cn) = ?h6"
    using k by (simp add: modify_def leaf_node_def del: upt_Suc)
  have pos: "(0 < length (children (?h6 ! ?n))) = True" using k by (simp del: upt_Suc)
  have pv: "progress_value ?h6 ?n = checked_ratio ms"
    using k count_checked_block [of h ?r6 ?n ?iss 0 ms "[]"]
    by (simp add: progress_value_def checked_ratio_def del: upt_Suc)
  have none: "progressBar (?h6 ! ?n) = None" by (simp add: leaf_node_def)
  have lt: "?n < length ?h6" by simp
  have calc: "calculateProgress ?n ?h6 =
      h @ root_node ?n lbl iss ty par isCb chk ms # ?cn
        @ [bar_update (checked_ratio ms) (progressBar_node ?n (number iss))]"
    unfolding calculateProgress_None [OF lt none] pv
    by (simp add: modify_def root_node_def leaf_node_def del: upt_Suc)
  show ?thesis
    unfolding new_before_parse [OF ty] Let_def h5 h6 pos if_True calc
    by (rule refl)
qed

text \<open>
  \<open>new_parsed\<close> is the store inside the constructor of a node that is not a progress node,
  after \<open>parseCheckboxes\<close> and the assignment to \<open>collapsibleState\<close> and before the
  constructor calls \<open>calculateProgress\<close>: the sub-items are among the children and there
  is no progress node yet. The constructor returns this store when the node has no
  children, and \<open>calculateProgress\<close> of it when it has.
\<close>

definition new_parsed ::
    "string \<Rightarrow> TreeItemCollapsibleState \<Rightarrow> IssueRecord \<Rightarrow> NodeType \<Rightarrow> addr option \<Rightarrow> bool
      \<Rightarrow> bool \<Rightarrow> heap \<Rightarrow> heap" where
  "new_parsed lbl cs iss ty par isCb chk h =
     (let this = length h;
          h0 = h @ [\<lparr>label = lbl, collapsibleState = cs, issue = iss, type = ty, parent = par,
                     isCheckbox = isCb, checked = chk, children = [], progress = 0,
                     progressBar = None, tooltip = None, description = None, iconPath = None,
                     checkboxState = None, contextValue = None, svgProgress = None\<rparr>];
          h1 = modify this (\<lambda>n. n\<lparr>tooltip := Some (''#'' @ number_str (number iss) @ '': ''
                                                      @ template (title iss)),
                                     description := Some (''#'' @ number_str (number iss))\<rparr>) h0;
          iss' = iss\<lparr>body := Some (or_empty (body iss))\<rparr>;
          h2 = modify this (\<lambda>n. n\<lparr>issue := iss'\<rparr>) h1;
          h3 = modify this (\<lambda>n. n\<lparr>iconPath := getIcon n\<rparr>) h2;
          h4 = (if isCb
                then modify this (\<lambda>n. n\<lparr>checkboxState := Some (getCheckboxState n),
                                             contextValue := Some ''checkbox'',
                                             description := Some ''''\<rparr>) h3
                else h3);
          h5 = parseCheckboxes_loop this iss' None (or_empty (body iss)) 0 h4
      in modify this (\<lambda>n. n\<lparr>collapsibleState :=
                              (if length (children n) > 0 then Expanded else CollapsibleNone)\<rparr>) h5)"

lemma new_GitHubIssue_parsed:
  assumes "ty \<noteq> ProgressBar"
  shows "new_GitHubIssue lbl cs iss ty par isCb chk h =
     (length h,
      if length (children (new_parsed lbl cs iss ty par isCb chk h ! length h)) > 0
      then calculateProgress (length h) (new_parsed lbl cs iss ty par isCb chk h)
      else new_parsed lbl cs iss ty par isCb chk h)"
  using assms by (simp add: new_GitHubIssue.simps new_parsed_def Let_def)

lemma new_parsed_eq:
  assumes ms: "checkbox_matches None (or_empty (body iss)) = ms" and ne: "ms \<noteq> []"
  shows "new_parsed lbl cs iss ty par isCb chk h =
     h @ (leaf_node lbl iss ty par isCb chk)
           \<lparr>collapsibleState := Expanded,
            children := [Suc (length h) ..< Suc (length h) + length ms]\<rparr>
       # child_nodes (length h) (iss\<lparr>body := Some (or_empty (body iss))\<rparr>) 0 ms"
proof -
  let ?n = "length h"
  let ?iss = "iss\<lparr>body := Some (or_empty (body iss))\<rparr>"
  let ?l = "(leaf_node lbl iss ty par isCb chk)\<lparr>collapsibleState := cs\<rparr>"
  let ?cn = "child_nodes ?n ?iss 0 ms"
  have k: "0 < length ms" using ne by (cases ms) simp_all
  have p: "new_parsed lbl cs iss ty par isCb chk h =
      modify ?n (\<lambda>n. n\<lparr>collapsibleState :=
                 (if length (children n) > 0 then Expanded else CollapsibleNone)\<rparr>)
        (parseCheckboxes_loop ?n ?iss None (or_empty (body iss)) 0 (h @ [?l]))"
    by (simp add: new_parsed_def leaf_node_def getIcon_def getCheckboxState_def Let_def)
  have h5: "parseCheckboxes_loop ?n ?iss None (or_empty (body iss)) 0 (h @ [?l])
            = h @ ?l\<lparr>children := [Suc ?n ..< Suc ?n + length ms]\<rparr> # ?cn"
    using parseCheckboxes_loop_eq [of ?n "h @ [?l]" ?iss None "or_empty (body iss)" 0]
    by (simp add: ms modify_last' leaf_node_def del: upt_Suc)
  show ?thesis
    unfolding p h5 using k by (simp add: modify_def leaf_node_def del: upt_Suc)
qed

definition progress_children :: "heap \<Rightarrow> addr \<Rightarrow> addr list" where
  "progress_children h a = filter (\<lambda>c. type (h ! c) = ProgressBar) (children (h ! a))"

definition subItems :: "heap \<Rightarrow> addr \<Rightarrow> GitHubIssue list" where
  "subItems h a = map ((!) h) (filter (\<lambda>c. isCheckbox (h ! c)) (children (h ! a)))"

lemma isCheckbox_child_nodes:
  "filter isCheckbox (child_nodes this iss index ms) = child_nodes this iss index ms"
  by (induction ms arbitrary: index) (simp_all add: child_node_def leaf_node_def)

lemma subItems_new:
  assumes ty: "ty \<noteq> ProgressBar"
    and new: "new_GitHubIssue lbl cs iss ty par isCb chk h = (a, H)"
  shows "subItems H a =
           child_nodes (length h) (iss\<lparr>body := Some (or_empty (body iss))\<rparr>) 0
             (checkbox_matches None (or_empty (body iss)))"
proof (cases "checkbox_matches None (or_empty (body iss)) = []")
  case True
  then have "rx_exec checkboxRegex None (or_empty (body iss)) = None"
    by (simp add: checkbox_matches_Nil_iff)
  from new_leaf [OF ty this, of lbl cs par isCb chk h] new True show ?thesis
    by (auto simp add: subItems_def leaf_node_def)
next
  case False
  define ms where "ms = checkbox_matches None (or_empty (body iss))"
  let ?n = "length h"
  let ?root = "root_node ?n lbl iss ty par isCb chk ms"
  let ?cn = "child_nodes ?n (iss\<lparr>body := Some (or_empty (body iss))\<rparr>) 0 ms"
  let ?bar = "bar_update (checked_ratio ms) (progressBar_node ?n (number iss))"
  have ne: "ms \<noteq> []" using False by (simp add: ms_def)
  from new_root [OF ty ms_def [symmetric] ne, of lbl cs par isCb chk h] new
  have a: "a = ?n" and H: "H = h @ ?root # ?cn @ [?bar]" by simp_all
  have Hn: "H ! ?n = ?root" unfolding H by simp
  have bar: "H ! (Suc ?n + length ms) = ?bar" unfolding H by (simp add: nth_append)
  have blk: "map ((!) H) [Suc ?n ..< Suc ?n + length ms] = ?cn"
    unfolding H using nth_block [of h ?root ?cn "[?bar]"] by (simp del: upt_Suc)
  have "map ((!) H) (filter (\<lambda>c. isCheckbox (H ! c)) [Suc ?n ..< Suc ?n + length ms])
        = filter isCheckbox (map ((!) H) [Suc ?n ..< Suc ?n + length ms])"
    by (simp add: filter_map comp_def)
  also have "\<dots> = ?cn" unfolding blk by (rule isCheckbox_child_nodes)
  finally show ?thesis
    unfolding subItems_def a Hn ms_def [symmetric]
    using bar by (simp add: root_node_def bar_update_def progressBar_node_def del: upt_Suc)
qed

section \<open>Well-formed stores\<close>

text \<open>
  \<open>node_ok\<close>: a node without a progress node has no children, and the progress node of a
  node is its only child of type \<open>progressBar\<close>. \<open>heap_ok\<close> adds that the addresses in
  \<open>children\<close> and \<open>parent\<close> are allocated. The empty store is well-formed, and the
  constructor, \<open>calculateProgress\<close> and \<open>toggleCheckbox\<close> keep a store well-formed: every
  store is, once the constructors have returned. Inside a constructor, between
  \<open>parseCheckboxes\<close> and the first \<open>calculateProgress\<close>, the new node has sub-items and
  no progress node (\<open>new_parsed\<close>).
\<close>

definition node_ok :: "heap \<Rightarrow> addr \<Rightarrow> bool" where
  "node_ok h a =
     (a < length h \<and>
      (case progressBar (h ! a) of
         None \<Rightarrow> children (h ! a) = []
       | Some pb \<Rightarrow> progress_children h a = [pb]))"

definition same_shape :: "heap \<Rightarrow> heap \<Rightarrow> bool" where
  "same_shape h h' =
     (length h' = length h \<and>
      (\<forall>c. type (h' ! c) = type (h ! c) \<and> children (h' ! c) = children (h ! c)
           \<and> progressBar (h' ! c) = progressBar (h ! c) \<and> parent (h' ! c) = parent (h ! c)))"

lemma same_shape_length: "same_shape h h' \<Longrightarrow> length h' = length h"
  by (simp add: same_shape_def)

lemma same_shape_type: "same_shape h h' \<Longrightarrow> type (h' ! c) = type (h ! c)"
  unfolding same_shape_def by (elim conjE allE [of _ c])

lemma same_shape_children: "same_shape h h' \<Longrightarrow> children (h' ! c) = children (h ! c)"
  unfolding same_shape_def by (elim conjE allE [of _ c])

lemma same_shape_progressBar: "same_shape h h' \<Longrightarrow> progressBar (h' ! c) = progressBar (h ! c)"
  unfolding same_shape_def by (elim conjE allE [of _ c])

lemma same_shape_parent: "same_shape h h' \<Longrightarrow> parent (h' ! c) = parent (h ! c)"
  unfolding same_shape_def by (elim conjE allE [of _ c])

definition heap_ok :: "heap \<Rightarrow> bool" where
  "heap_ok h =
     (\<forall>a < length h.
        node_ok h a
        \<and> (\<forall>c \<in> set (children (h ! a)). c < length h)
        \<and> (\<forall>p. parent (h ! a) = Some p \<longrightarrow> p < length h))"

lemma same_shape_heap_ok:
  assumes s: "same_shape h h'" and ok: "heap_ok h"
  shows "heap_ok h'"
proof -
  note eqs = same_shape_length [OF s] same_shape_type [OF s] same_shape_children [OF s]
    same_shape_progressBar [OF s] same_shape_parent [OF s]
  have "heap_ok h' = heap_ok h"
    unfolding heap_ok_def node_ok_def progress_children_def eqs ..
  with ok show ?thesis by simp
qed

lemma same_shape_modify:
  assumes "\<And>n. type (f n) = type n" "\<And>n. children (f n) = children n"
    "\<And>n. progressBar (f n) = progressBar n" "\<And>n. parent (f n) = parent n"
  shows "same_shape h (modify a f h)"
  unfolding same_shape_def by (simp add: nth_modify assms)

lemma same_shape_trans: "same_shape h h' \<Longrightarrow> same_shape h' h'' \<Longrightarrow> same_shape h h''"
  unfolding same_shape_def by (elim conjE) simp

lemma heap_ok_Nil: "heap_ok []"
  by (simp add: heap_ok_def)

lemma heap_okD:
  assumes "heap_ok h" and "a < length h"
  shows "node_ok h a" and "\<And>c. c \<in> set (children (h ! a)) \<Longrightarrow> c < length h"
    and "\<And>p. parent (h ! a) = Some p \<Longrightarrow> p < length h"
  using assms unfolding heap_ok_def by blast+

lemma node_ok_append:
  assumes ok: "node_ok h a" and ch: "\<And>c. c \<in> set (children (h ! a)) \<Longrightarrow> c < length h"
  shows "node_ok (h @ xs) a"
proof -
  from ok have a: "a < length h" by (simp add: node_ok_def)
  have "progress_children (h @ xs) a = progress_children h a"
    unfolding progress_children_def using a ch
    by (auto simp add: nth_append intro!: filter_cong)
  moreover have "(h @ xs) ! a = h ! a" using a by (simp add: nth_append)
  ultimately show ?thesis using ok a by (simp add: node_ok_def split: option.splits)
qed

lemma heap_ok_calculateProgress:
  assumes ok: "heap_ok h" and a: "a < length h"
  shows "heap_ok (calculateProgress a h)"
proof (cases "progressBar (h ! a)")
  case (Some pb)
  have "same_shape h (calculateProgress a h)"
    unfolding calculateProgress_Some [OF a Some]
    by (rule same_shape_trans [OF same_shape_modify same_shape_modify])
       (simp_all add: bar_update_def)
  then show ?thesis using ok by (rule same_shape_heap_ok)
next
  case None
  let ?n = "length h"
  let ?p = "progress_value h a"
  let ?bar = "bar_update ?p (progressBar_node a (number (issue (h ! a))))"
  let ?f = "\<lambda>n. n\<lparr>progress := ?p, progressBar := Some ?n, children := ?n # children n\<rparr>"
  let ?h1 = "modify a ?f h"
  let ?h' = "?h1 @ [?bar]"
  from heap_okD(1) [OF ok a] None have ch: "children (h ! a) = []" by (simp add: node_ok_def)
  have h': "calculateProgress a h = ?h'" by (rule calculateProgress_None [OF a None])
  have "heap_ok ?h'"
    unfolding heap_ok_def
  proof (intro allI impI)
    fix b assume "b < length ?h'"
    then consider "b = ?n" | "b = a" | "b < ?n" "b \<noteq> a" by fastforce
    then show "node_ok ?h' b \<and> (\<forall>c \<in> set (children (?h' ! b)). c < length ?h')
               \<and> (\<forall>p. parent (?h' ! b) = Some p \<longrightarrow> p < length ?h')"
    proof cases
      case 1
      have "?h' ! b = ?bar" unfolding 1 by (simp add: nth_append)
      then show ?thesis using a 1
        by (simp add: node_ok_def bar_update_def progressBar_node_def)
    next
      case 2
      have b: "?h' ! b = ?f (h ! a)" unfolding 2 using a by (simp add: nth_append)
      have bar: "?h' ! ?n = ?bar" by (simp add: nth_append)
      have "progress_children ?h' b = [?n]"
        unfolding progress_children_def b using ch bar
        by (simp add: bar_update_def progressBar_node_def)
      with heap_okD(3) [OF ok a] a 2 ch show ?thesis
        unfolding node_ok_def b by (simp add: less_Suc_eq)
    next
      case 3
      note okb = heap_okD [OF ok 3(1)]
      have b: "?h1 ! b = h ! b" using 3 by simp
      have "node_ok ?h1 b" 
      proof -
        have "progress_children ?h1 b = progress_children h b"
          unfolding progress_children_def b
          by (rule filter_cong) (simp_all add: nth_modify)
        with okb(1) show ?thesis by (simp add: node_ok_def b split: option.splits)
      qed
      then have "node_ok ?h' b"
        by (rule node_ok_append) (use okb(2) b in simp)
      moreover have "?h' ! b = h ! b" using 3 by (simp add: nth_append)
      ultimately show ?thesis using okb(2,3) by (auto simp add: less_Suc_eq)
    qed
  qed
  then show ?thesis by (simp only: h')
qed

lemma heap_ok_toggleCheckbox:
  assumes ok: "heap_ok h" and a: "this < length h"
  shows "heap_ok (toggleCheckbox this h)"
proof (cases "isCheckbox (h ! this)")
  case False
  with ok show ?thesis by (simp add: toggleCheckbox_def)
next
  case True
  let ?h2 = "modify this (\<lambda>n. n\<lparr>checkboxState := Some (getCheckboxState n)\<rparr>)
               (modify this (\<lambda>n. n\<lparr>checked := \<not> checked n\<rparr>) h)"
  have s: "same_shape h ?h2"
    by (rule same_shape_trans [OF same_shape_modify same_shape_modify]) simp_all
  then have ok2: "heap_ok ?h2" using ok by (rule same_shape_heap_ok)
  have len: "length ?h2 = length h" by simp
  show ?thesis
  proof (cases "parent (h ! this)")
    case None
    with True ok2 same_shape_parent [OF s, of this] show ?thesis
      by (simp add: toggleCheckbox_def Let_def)
  next
    case (Some p)
    from heap_okD(3) [OF ok a Some] have "p < length ?h2" by simp
    from heap_ok_calculateProgress [OF ok2 this] True Some same_shape_parent [OF s, of this]
    show ?thesis by (simp add: toggleCheckbox_def Let_def)
  qed
qed

lemma heap_ok_extend:
  assumes ok: "heap_ok h"
    and new: "\<And>b. length h \<le> b \<Longrightarrow> b < length (h @ xs) \<Longrightarrow>
                node_ok (h @ xs) b \<and> (\<forall>c \<in> set (children ((h @ xs) ! b)). c < length (h @ xs))
                \<and> (\<forall>p. parent ((h @ xs) ! b) = Some p \<longrightarrow> p < length (h @ xs))"
  shows "heap_ok (h @ xs)"
  unfolding heap_ok_def
proof (intro allI impI)
  fix b assume b: "b < length (h @ xs)"
  show "node_ok (h @ xs) b \<and> (\<forall>c \<in> set (children ((h @ xs) ! b)). c < length (h @ xs))
                \<and> (\<forall>p. parent ((h @ xs) ! b) = Some p \<longrightarrow> p < length (h @ xs))"
  proof (cases "b < length h")
    case False
    then have "length h \<le> b" by simp
    from new [OF this b] show ?thesis .
  next
    case True
    note okb = heap_okD [OF ok True]
    have eq: "(h @ xs) ! b = h ! b" using True by (simp add: nth_append)
    have "node_ok (h @ xs) b" using okb(1,2) by (rule node_ok_append)
    moreover have "c < length (h @ xs)" if "c \<in> set (children (h ! b))" for c
      using okb(2) [OF that] by simp
    moreover have "p < length (h @ xs)" if "parent (h ! b) = Some p" for p
      using okb(3) [OF that] by simp
    ultimately show ?thesis unfolding eq by blast
  qed
qed

lemma child_nodes_props:
  assumes "x \<in> set (child_nodes this iss index ms)"
  shows "type x = Issue \<and> children x = [] \<and> progressBar x = None \<and> parent x = Some this
         \<and> isCheckbox x"
  using assms
  by (induction ms arbitrary: index) (auto simp add: child_node_def leaf_node_def)

lemma heap_ok_new:
  assumes ok: "heap_ok h" and ty: "ty \<noteq> ProgressBar"
    and par: "\<And>p. par = Some p \<Longrightarrow> p < length h"
  shows "heap_ok (snd (new_GitHubIssue lbl cs iss ty par isCb chk h))"
proof (cases "checkbox_matches None (or_empty (body iss)) = []")
  case True
  then have "rx_exec checkboxRegex None (or_empty (body iss)) = None"
    by (simp add: checkbox_matches_Nil_iff)
  from new_leaf [OF ty this]
  have eq: "snd (new_GitHubIssue lbl cs iss ty par isCb chk h) = h @ [leaf_node lbl iss ty par isCb chk]"
    by simp
  show ?thesis unfolding eq
  proof (rule heap_ok_extend [OF ok])
    fix b assume "length h \<le> b" "b < length (h @ [leaf_node lbl iss ty par isCb chk])"
    then have b: "b = length h" by simp
    show "node_ok (h @ [leaf_node lbl iss ty par isCb chk]) b \<and>
         (\<forall>c\<in>set (children ((h @ [leaf_node lbl iss ty par isCb chk]) ! b)).
             c < length (h @ [leaf_node lbl iss ty par isCb chk])) \<and>
         (\<forall>p. parent ((h @ [leaf_node lbl iss ty par isCb chk]) ! b) = Some p \<longrightarrow>
              p < length (h @ [leaf_node lbl iss ty par isCb chk]))"
      unfolding b using par by (auto simp add: node_ok_def leaf_node_def less_Suc_eq)
  qed
next
  case False
  define ms where "ms = checkbox_matches None (or_empty (body iss))"
  define n where "n = length h"
  define cn where "cn = child_nodes n (iss\<lparr>body := Some (or_empty (body iss))\<rparr>) 0 ms"
  define bar where "bar = bar_update (checked_ratio ms) (progressBar_node n (number iss))"
  define root where "root = root_node n lbl iss ty par isCb chk ms"
  define H where "H = h @ root # cn @ [bar]"
  have ne: "ms \<noteq> []" using False by (simp add: ms_def)
  from new_root [OF ty ms_def [symmetric] ne]
  have eq: "snd (new_GitHubIssue lbl cs iss ty par isCb chk h) = H"
    by (simp add: H_def root_def cn_def bar_def n_def)
  have k: "length cn = length ms" by (simp add: cn_def)
  have lenH: "length H = Suc (Suc (n + length ms))" by (simp add: H_def k n_def)
  have Hn: "H ! n = root" by (simp add: H_def n_def)
  have Hc: "H ! (Suc n + i) = cn ! i" if "i < length ms" for i
    using that k by (simp add: H_def n_def nth_append)
  have Hb: "H ! (Suc n + length ms) = bar"
    using k by (simp add: H_def n_def nth_append)
  have cnP: "type (cn ! i) = Issue \<and> children (cn ! i) = [] \<and> progressBar (cn ! i) = None
             \<and> parent (cn ! i) = Some n" if "i < length ms" for i
  proof -
    have "cn ! i \<in> set cn" using that k by simp
    from child_nodes_props [OF this [unfolded cn_def]] show ?thesis
      unfolding cn_def by blast
  qed
  have pc: "progress_children H n = [Suc n + length ms]"
  proof -
    have "filter (\<lambda>c. type (H ! c) = ProgressBar) [Suc n ..< Suc n + length ms] = []"
    proof (simp only: filter_empty_conv, intro ballI)
      fix c assume "c \<in> set [Suc n ..< Suc n + length ms]"
      then have "c = Suc n + (c - Suc n)" "c - Suc n < length ms" by auto
      then obtain i where "c = Suc n + i" "i < length ms" by blast
      with Hc cnP show "type (H ! c) \<noteq> ProgressBar" by simp
    qed
    then show ?thesis
      unfolding progress_children_def Hn
      using Hb by (simp add: root_def root_node_def bar_def bar_update_def progressBar_node_def
          del: upt_Suc)
  qed
  have "heap_ok H" unfolding H_def
  proof (rule heap_ok_extend [OF ok], fold H_def)
    fix b assume "length h \<le> b" "b < length H"
    then have "b = n \<or> (b = Suc n + (b - Suc n) \<and> b - Suc n < length ms) \<or> b = Suc n + length ms"
      unfolding lenH n_def by arith
    then consider "b = n" | i where "b = Suc n + i" "i < length ms" | "b = Suc n + length ms"
      by blast
    then show "node_ok H b \<and> (\<forall>c\<in>set (children (H ! b)). c < length H) \<and>
         (\<forall>p. parent (H ! b) = Some p \<longrightarrow> p < length H)"
    proof cases
      case 1
      have "progressBar root = Some (Suc n + length ms)"
        "children root = (Suc n + length ms) # [Suc n ..< Suc n + length ms]"
        "parent root = par"
        by (simp_all add: root_def root_node_def leaf_node_def)
      with pc par show ?thesis unfolding 1 node_ok_def Hn lenH
        by (auto simp add: n_def simp del: upt_Suc)
    next
      case 2
      with Hc [OF 2(2)] cnP [OF 2(2)] show ?thesis
        unfolding node_ok_def lenH by simp
    next
      case 3
      have "children bar = []" "progressBar bar = None" "parent bar = Some n"
        by (simp_all add: bar_def bar_update_def progressBar_node_def)
      with Hb show ?thesis unfolding 3 node_ok_def lenH by simp
    qed
  qed
  then show ?thesis by (simp only: eq)
qed

section \<open>Recomputing the progress\<close>

lemma progress_value_cong:
  assumes "children (h' ! a) = children (h ! a)"
    and "\<And>c. checked (h' ! c) = checked (h ! c)"
  shows "progress_value h' a = progress_value h a"
  using assms by (simp add: progress_value_def)

lemma calculateProgress_fix:
  assumes a: "a < length h" and pb: "progressBar (h ! a) = Some pb"
    and p: "progress (h ! a) = progress_value h a"
    and bar: "pb < length h \<Longrightarrow> bar_update (progress_value h a) (h ! pb) = h ! pb"
  shows "calculateProgress a h = h"
proof -
  have 1: "modify a (\<lambda>n. n\<lparr>progress := progress_value h a\<rparr>) h = h"
    using p by (intro modify_id) simp
  have 2: "modify pb (bar_update (progress_value h a)) h = h"
    using bar by (cases "pb < length h") (simp_all add: modify_def list_update_beyond)
  show ?thesis
    unfolding calculateProgress_Some [OF a pb] 1 2 ..
qed

lemma calculateProgress_idem_Some:
  assumes a: "a < length h" and pb: "progressBar (h ! a) = Some pb"
  shows "calculateProgress a (calculateProgress a h) = calculateProgress a h"
proof -
  let ?p = "progress_value h a"
  let ?h1 = "modify a (\<lambda>n. n\<lparr>progress := ?p\<rparr>) h"
  let ?h' = "modify pb (bar_update ?p) ?h1"
  have h': "calculateProgress a h = ?h'" by (rule calculateProgress_Some [OF a pb])
  have a': "a < length ?h'" using a by simp
  have pb': "progressBar (?h' ! a) = Some pb"
    using a pb by (auto simp add: nth_modify bar_update_def)
  have pv: "progress_value ?h' a = ?p"
    by (rule progress_value_cong) (simp_all add: nth_modify bar_update_def)
  have "calculateProgress a ?h' = ?h'"
  proof (rule calculateProgress_fix [OF a' pb'])
    show "progress (?h' ! a) = progress_value ?h' a"
      unfolding pv using a by (simp add: nth_modify bar_update_def)
    show "bar_update (progress_value ?h' a) (?h' ! pb) = ?h' ! pb" if "pb < length ?h'"
      unfolding pv using that by (simp add: nth_modify bar_update_def)
  qed
  then show ?thesis by (simp only: h')
qed

lemma progress_children_Some:
  assumes a: "a < length h" and pb: "progressBar (h ! a) = Some pb"
  shows "progress_children (calculateProgress a h) a = progress_children h a"
  unfolding calculateProgress_Some [OF a pb] progress_children_def
  by (auto simp add: nth_modify bar_update_def intro!: filter_cong)

lemma calculateProgress_idem_None:
  assumes a: "a < length h" and pb: "progressBar (h ! a) = None" and ch: "children (h ! a) = []"
  shows "calculateProgress a (calculateProgress a h) = calculateProgress a h"
    and "progress_children (calculateProgress a h) a = [length h]"
proof -
  let ?bar = "bar_update 0 (progressBar_node a (number (issue (h ! a))))"
  let ?h' = "modify a (\<lambda>n. n\<lparr>progress := 0, progressBar := Some (length h),
                               children := [length h]\<rparr>) h @ [?bar]"
  have pv: "progress_value h a = 0" using ch by (simp add: progress_value_def)
  have h': "calculateProgress a h = ?h'"
    unfolding calculateProgress_None [OF a pb] pv using ch by (simp add: modify_def)
  have a': "a < length ?h'" using a by simp
  have pb': "progressBar (?h' ! a) = Some (length h)" using a by (simp add: nth_append)
  have pv': "progress_value ?h' a = 0"
    using a by (simp add: progress_value_def nth_append bar_update_def progressBar_node_def)
  have "calculateProgress a ?h' = ?h'"
  proof (rule calculateProgress_fix [OF a' pb'])
    show "progress (?h' ! a) = progress_value ?h' a"
      unfolding pv' using a by (simp add: nth_append)
    show "bar_update (progress_value ?h' a) (?h' ! length h) = ?h' ! length h" if "length h < length ?h'"
      unfolding pv' by (simp add: nth_append bar_update_def)
  qed
  then show "calculateProgress a (calculateProgress a h) = calculateProgress a h"
    by (simp only: h')
  show "progress_children (calculateProgress a h) a = [length h]"
    unfolding h' progress_children_def using a
    by (simp add: nth_append bar_update_def progressBar_node_def)
qed

text \<open>
  On a node of a well-formed store a call of \<open>calculateProgress\<close> is idempotent: the
  progress node is there already (or the node has no children), so a second call finds the
  children the first call counted.
\<close>

lemma calculateProgress_idempotent:
  assumes "node_ok h a"
  shows "calculateProgress a (calculateProgress a h) = calculateProgress a h
       \<and> length (progress_children (calculateProgress a h) a) = 1
       \<and> progress (calculateProgress a (calculateProgress a h) ! a)
           = progress (calculateProgress a h ! a)"
proof (cases "progressBar (h ! a)")
  case None
  with assms have "a < length h" and "children (h ! a) = []" by (simp_all add: node_ok_def)
  from calculateProgress_idem_None [OF this(1) None this(2)] show ?thesis by simp
next
  case (Some pb)
  with assms have a: "a < length h" and pc: "progress_children h a = [pb]"
    by (simp_all add: node_ok_def)
  from calculateProgress_idem_Some [OF a Some] progress_children_Some [OF a Some] pc
  show ?thesis by simp
qed

lemma checked_calculateProgress:
  assumes a: "a < length h" and c: "c < length h"
  shows "checked (calculateProgress a h ! c) = checked (h ! c)"
proof (cases "progressBar (h ! a)")
  case (Some pb)
  show ?thesis unfolding calculateProgress_Some [OF a Some]
    by (simp add: nth_modify bar_update_def)
next
  case None
  show ?thesis unfolding calculateProgress_None [OF a None] using c
    by (simp add: nth_append nth_modify)
qed

lemma progress_calculateProgress:
  assumes a: "a < length h"
  shows "progress (calculateProgress a h ! a) = progress_value h a"
proof (cases "progressBar (h ! a)")
  case (Some pb)
  show ?thesis unfolding calculateProgress_Some [OF a Some] using a
    by (simp add: nth_modify bar_update_def)
next
  case None
  show ?thesis unfolding calculateProgress_None [OF a None] using a
    by (simp add: nth_append)
qed

lemma progress_after_new:
  assumes ty: "ty \<noteq> ProgressBar"
    and ms: "checkbox_matches None (or_empty (body iss)) = ms" and ne: "ms \<noteq> []"
    and new: "new_GitHubIssue lbl cs iss ty par isCb chk h = (a, H)"
  shows "progress (H ! a) =
           (real (length (filter (\<lambda>m. captures m ! 1 = ''x'') ms)) / real (length ms)) * 100"
    and "progress (calculateProgress a H ! a) =
           (real (length (filter (\<lambda>m. captures m ! 1 = ''x'') ms)) / real (Suc (length ms))) * 100"
proof -
  let ?n = "length h"
  let ?root = "root_node ?n lbl iss ty par isCb chk ms"
  let ?cn = "child_nodes ?n (iss\<lparr>body := Some (or_empty (body iss))\<rparr>) 0 ms"
  let ?bar = "bar_update (checked_ratio ms) (progressBar_node ?n (number iss))"
  from new_root [OF ty ms ne, of lbl cs par isCb chk h] new
  have a: "a = ?n" and H: "H = h @ ?root # ?cn @ [?bar]" by simp_all
  have Hn: "H ! ?n = ?root" unfolding H by simp
  show "progress (H ! a) =
           (real (length (filter (\<lambda>m. captures m ! 1 = ''x'') ms)) / real (length ms)) * 100"
    unfolding a Hn by (simp add: root_node_def checked_ratio_def)
  have lt: "?n < length H" unfolding H by simp
  have bar: "H ! (Suc ?n + length ms) = ?bar" unfolding H by (simp add: nth_append)
  have "progress_value H ?n =
          (real (length (filter (\<lambda>m. captures m ! 1 = ''x'') ms)) / real (Suc (length ms))) * 100"
    unfolding progress_value_def Hn
    using count_checked_block [of h ?root ?n "iss\<lparr>body := Some (or_empty (body iss))\<rparr>" 0 ms "[?bar]"]
      bar
    by (simp add: root_node_def H bar_update_def progressBar_node_def del: upt_Suc)
  then show "progress (calculateProgress a H ! a) =
           (real (length (filter (\<lambda>m. captures m ! 1 = ''x'') ms)) / real (Suc (length ms))) * 100"
    unfolding a using progress_calculateProgress [OF lt] by simp
qed

text \<open>The store after flipping the flag of a sub-item, before the parent is recomputed.\<close>

definition flip_checked :: "addr \<Rightarrow> heap \<Rightarrow> heap" where
  "flip_checked this h =
     h[this := (h ! this)\<lparr>checked := \<not> checked (h ! this),
                            checkboxState := Some (if checked (h ! this) then Unchecked else Checked)\<rparr>]"

lemma toggleCheckbox_eq:
  assumes "this < length h" and "isCheckbox (h ! this)"
  shows "toggleCheckbox this h =
           (case parent (h ! this) of
              None \<Rightarrow> flip_checked this h
            | Some p \<Rightarrow> calculateProgress p (flip_checked this h))"
proof -
  have h2: "modify this (\<lambda>n. n\<lparr>checkboxState := Some (getCheckboxState n)\<rparr>)
          (modify this (\<lambda>n. n\<lparr>checked := \<not> checked n\<rparr>) h) = flip_checked this h"
    using assms(1) by (simp add: modify_def flip_checked_def getCheckboxState_def)
  have par: "parent (flip_checked this h ! this) = parent (h ! this)"
    using assms(1) by (simp add: flip_checked_def)
  show ?thesis unfolding toggleCheckbox_def Let_def h2 par using assms(2) by simp
qed

section \<open>Facts about the service\<close>

text \<open>
  \<open>fetchAndCacheIssues_success\<close> is the whole effect of a fetch whose two listings succeed;
  \<open>fetchAndCacheIssues_failure\<close> says that a failing listing leads into the \<open>catch\<close> block.
\<close>

definition listRequest :: "string \<Rightarrow> string \<Rightarrow> ItemState \<Rightarrow> ListRequest" where
  "listRequest ownr rep st =
     \<lparr>owner = ownr, repo = rep, item_state = st, per_page = 100, page = None\<rparr>"

definition cacheKeyOf :: "string \<Rightarrow> string \<Rightarrow> string" where
  "cacheKeyOf ownr rep = ''githubIssues_'' @ ownr @ ''_'' @ rep"

lemma getGitHubRepoInfo_update [simp]:
  "getGitHubRepoInfo (s\<lparr>listCalls := a\<rparr>) = getGitHubRepoInfo s"
  "getGitHubRepoInfo (s\<lparr>outputChannel := b\<rparr>) = getGitHubRepoInfo s"
  "getGitHubRepoInfo (s\<lparr>errorMessages := c\<rparr>) = getGitHubRepoInfo s"
  "getGitHubRepoInfo (s\<lparr>workspaceState := d\<rparr>) = getGitHubRepoInfo s"
  "getGitHubRepoInfo (s\<lparr>onDataUpdated := e\<rparr>) = getGitHubRepoInfo s"
  "getGitHubRepoInfo (s\<lparr>background := f\<rparr>) = getGitHubRepoInfo s"
  by (simp_all add: getGitHubRepoInfo_def)

lemma getCacheKey_update [simp]:
  "getCacheKey (s\<lparr>listCalls := a\<rparr>) = getCacheKey s"
  "getCacheKey (s\<lparr>outputChannel := b\<rparr>) = getCacheKey s"
  "getCacheKey (s\<lparr>errorMessages := c\<rparr>) = getCacheKey s"
  "getCacheKey (s\<lparr>workspaceState := d\<rparr>) = getCacheKey s"
  "getCacheKey (s\<lparr>onDataUpdated := e\<rparr>) = getCacheKey s"
  "getCacheKey (s\<lparr>background := f\<rparr>) = getCacheKey s"
  by (simp_all add: getCacheKey_def)

lemma getCacheKey_resolved:
  "getGitHubRepoInfo s = Inr (ownr, rep) \<Longrightarrow> getCacheKey s = Inr (cacheKeyOf ownr rep)"
  by (simp add: getCacheKey_def cacheKeyOf_def)

lemma fetchItems_Some:
  "octokit s = Some client \<Longrightarrow>
     fetchItems ownr rep st s =
       (listForRepo client (listRequest ownr rep st),
        s\<lparr>listCalls := listCalls s @ [listRequest ownr rep st]\<rparr>)"
  by (simp add: fetchItems_def listRequest_def Let_def)

lemma fetchItems_None:
  "octokit s = None \<Longrightarrow>
     fetchItems ownr rep st s = (Inl (Error ''GitHub API is not initialized''), s)"
  by (simp add: fetchItems_def)

definition fetchedMessage :: "string \<Rightarrow> string \<Rightarrow> items \<Rightarrow> string" where
  "fetchedMessage ownr rep r =
     ''Fetched and cached '' @ toString_nat (length (fst r)) @ '' GitHub issues and ''
       @ toString_nat (length (snd r)) @ '' pull requests for '' @ ownr @ ''/'' @ rep"

definition partitionItems :: "IssueRecord list \<Rightarrow> IssueRecord list \<Rightarrow> items" where
  "partitionItems openItems closedItems =
     (filter (\<lambda>item. \<not> pull_request item) (openItems @ closedItems),
      filter (\<lambda>item. pull_request item) (openItems @ closedItems))"

lemma fetchAndCacheIssues_success:
  assumes repo: "getGitHubRepoInfo s = Inr (ownr, rep)"
    and oc: "octokit s = Some client"
    and o: "listForRepo client (listRequest ownr rep StateOpen) = Inr openItems"
    and c: "listForRepo client (listRequest ownr rep StateClosed) = Inr closedItems"
  shows "fetchAndCacheIssues s =
    (Inr (partitionItems openItems closedItems),
     s\<lparr>listCalls := listCalls s @ [listRequest ownr rep StateOpen, listRequest ownr rep StateClosed],
       workspaceState := (workspaceState s)(cacheKeyOf ownr rep \<mapsto>
          \<lparr>timestamp = clock s, issues = fst (partitionItems openItems closedItems),
           pullRequests = snd (partitionItems openItems closedItems)\<rparr>),
       outputChannel := outputChannel s @ [fetchedMessage ownr rep (partitionItems openItems closedItems)],
       onDataUpdated := onDataUpdated s @ [partitionItems openItems closedItems]\<rparr>)"
proof -
  let ?s1 = "s\<lparr>listCalls := listCalls s @ [listRequest ownr rep StateOpen]\<rparr>"
  let ?s2 = "?s1\<lparr>listCalls := listCalls ?s1 @ [listRequest ownr rep StateClosed]\<rparr>"
  have f1: "fetchItems ownr rep StateOpen s = (Inr openItems, ?s1)"
    using fetchItems_Some [OF oc] o by simp
  have "octokit ?s1 = Some client" using oc by simp
  from fetchItems_Some [OF this] c
  have f2: "fetchItems ownr rep StateClosed ?s1 = (Inr closedItems, ?s2)" by simp
  have key: "getCacheKey s = Inr (cacheKeyOf ownr rep)"
    using repo by (rule getCacheKey_resolved)
  show ?thesis
    unfolding fetchAndCacheIssues_def repo
    by (simp add: f1 f2 key Let_def partitionItems_def fetchedMessage_def appendLine_def)
qed

definition cachedItems :: "Service \<Rightarrow> string \<Rightarrow> items" where
  "cachedItems s cacheKey =
     (case workspaceState s cacheKey of
        None \<Rightarrow> ([], [])
      | Some cachedData \<Rightarrow> (issues cachedData, pullRequests cachedData))"

lemma getFallbackItems_resolved:
  assumes "getGitHubRepoInfo s = Inr (ownr, rep)"
  shows "fst (getFallbackItems s) = Inr (cachedItems s (cacheKeyOf ownr rep))"
    and "workspaceState (snd (getFallbackItems s)) = workspaceState s"
    and "onDataUpdated (snd (getFallbackItems s)) = onDataUpdated s"
    and "errorMessages (snd (getFallbackItems s)) = errorMessages s"
    and "listCalls (snd (getFallbackItems s)) = listCalls s"
    and "take (length (outputChannel s)) (outputChannel (snd (getFallbackItems s))) = outputChannel s"
  using getCacheKey_resolved [OF assms]
  by (simp_all add: getFallbackItems_def cachedItems_def appendLine_def split: option.splits)

definition fetchErrorLine :: "error \<Rightarrow> string" where
  "fetchErrorLine e = ''Error fetching GitHub issues and pull requests: '' @ errorMessage e"

lemma fetchAndCacheIssues_catch_resolved:
  assumes "getGitHubRepoInfo s = Inr (ownr, rep)"
  shows "fst (fetchAndCacheIssues_catch e s) = Inr (cachedItems s (cacheKeyOf ownr rep))"
    and "workspaceState (snd (fetchAndCacheIssues_catch e s)) = workspaceState s"
    and "onDataUpdated (snd (fetchAndCacheIssues_catch e s)) = onDataUpdated s"
    and "errorMessages (snd (fetchAndCacheIssues_catch e s)) =
           errorMessages s @ [''Error fetching GitHub issues and pull requests. Check output for details.'']"
    and "listCalls (snd (fetchAndCacheIssues_catch e s)) = listCalls s"
    and "take (Suc (length (outputChannel s))) (outputChannel (snd (fetchAndCacheIssues_catch e s)))
           = outputChannel s @ [fetchErrorLine e]"
proof -
  let ?s = "handleError ''Error fetching GitHub issues and pull requests'' e s"
  have r: "getGitHubRepoInfo ?s = Inr (ownr, rep)"
    using assms by (simp add: handleError_def appendLine_def Let_def)
  have ws: "workspaceState ?s = workspaceState s" "onDataUpdated ?s = onDataUpdated s"
    "listCalls ?s = listCalls s"
    "errorMessages ?s = errorMessages s @ [''Error fetching GitHub issues and pull requests. Check output for details.'']"
    "outputChannel ?s = outputChannel s @ [fetchErrorLine e]"
    by (simp_all add: handleError_def appendLine_def Let_def fetchErrorLine_def)
  have ci: "cachedItems ?s k = cachedItems s k" for k by (simp add: cachedItems_def ws)
  note fb = getFallbackItems_resolved [OF r]
  show "fst (fetchAndCacheIssues_catch e s) = Inr (cachedItems s (cacheKeyOf ownr rep))"
    unfolding fetchAndCacheIssues_catch_def fb(1) ci ..
  show "workspaceState (snd (fetchAndCacheIssues_catch e s)) = workspaceState s"
    unfolding fetchAndCacheIssues_catch_def fb(2) ws ..
  show "onDataUpdated (snd (fetchAndCacheIssues_catch e s)) = onDataUpdated s"
    unfolding fetchAndCacheIssues_catch_def fb(3) ws ..
  show "errorMessages (snd (fetchAndCacheIssues_catch e s)) =
           errorMessages s @ [''Error fetching GitHub issues and pull requests. Check output for details.'']"
    unfolding fetchAndCacheIssues_catch_def fb(4) ws ..
  show "listCalls (snd (fetchAndCacheIssues_catch e s)) = listCalls s"
    unfolding fetchAndCacheIssues_catch_def fb(5) ws ..
  from fb(6) show "take (Suc (length (outputChannel s))) (outputChannel (snd (fetchAndCacheIssues_catch e s)))
           = outputChannel s @ [fetchErrorLine e]"
    unfolding fetchAndCacheIssues_catch_def ws by simp
qed

text \<open>The remote fetch of \<open>fetchAndCacheIssues\<close> fails with the error \<open>e\<close>.\<close>

definition fetch_fails :: "string \<Rightarrow> string \<Rightarrow> Service \<Rightarrow> error \<Rightarrow> bool" where
  "fetch_fails ownr rep s e =
     (case octokit s of
        None \<Rightarrow> e = Error ''GitHub API is not initialized''
      | Some client \<Rightarrow>
          (case listForRepo client (listRequest ownr rep StateOpen) of
             Inl e1 \<Rightarrow> e = e1
           | Inr openItems \<Rightarrow> listForRepo client (listRequest ownr rep StateClosed) = Inl e))"

lemma fetchAndCacheIssues_failure:
  assumes repo: "getGitHubRepoInfo s = Inr (ownr, rep)" and fails: "fetch_fails ownr rep s e"
  shows "\<exists>s1. fetchAndCacheIssues s = fetchAndCacheIssues_catch e s1
              \<and> getGitHubRepoInfo s1 = Inr (ownr, rep)
              \<and> workspaceState s1 = workspaceState s \<and> onDataUpdated s1 = onDataUpdated s
              \<and> errorMessages s1 = errorMessages s \<and> outputChannel s1 = outputChannel s"
proof (cases "octokit s")
  case None
  with fails have e: "e = Error ''GitHub API is not initialized''" by (simp add: fetch_fails_def)
  have "fetchAndCacheIssues s = fetchAndCacheIssues_catch e s"
    unfolding fetchAndCacheIssues_def repo e by (simp add: fetchItems_None [OF None])
  with repo show ?thesis by blast
next
  case (Some client)
  let ?s1 = "s\<lparr>listCalls := listCalls s @ [listRequest ownr rep StateOpen]\<rparr>"
  let ?s2 = "?s1\<lparr>listCalls := listCalls ?s1 @ [listRequest ownr rep StateClosed]\<rparr>"
  have oc1: "octokit ?s1 = Some client" using Some by simp
  show ?thesis
  proof (cases "listForRepo client (listRequest ownr rep StateOpen)")
    case (Inl e1)
    with fails Some have e: "e = e1" by (simp add: fetch_fails_def)
    have "fetchAndCacheIssues s = fetchAndCacheIssues_catch e ?s1"
      unfolding fetchAndCacheIssues_def repo e by (simp add: fetchItems_Some [OF Some] Inl)
    moreover have "getGitHubRepoInfo ?s1 = Inr (ownr, rep)" using repo by simp
    ultimately show ?thesis by (intro exI [of _ ?s1]) simp
  next
    case (Inr openItems)
    with fails Some have c: "listForRepo client (listRequest ownr rep StateClosed) = Inl e"
      by (simp add: fetch_fails_def)
    have "fetchAndCacheIssues s = fetchAndCacheIssues_catch e ?s2"
      unfolding fetchAndCacheIssues_def repo
      by (simp add: fetchItems_Some [OF Some] fetchItems_Some [OF oc1] Inr c)
    moreover have "getGitHubRepoInfo ?s2 = Inr (ownr, rep)" using repo by simp
    ultimately show ?thesis by (intro exI [of _ ?s2]) simp
  qed
qed

lemma fetchAndUpdateInBackground_success:
  assumes repo: "getGitHubRepoInfo s = Inr (ownr, rep)"
    and oc: "octokit s = Some client"
    and o: "listForRepo client (listRequest ownr rep StateOpen) = Inr openItems"
    and c: "listForRepo client (listRequest ownr rep StateClosed) = Inr closedItems"
  shows "onDataUpdated (fetchAndUpdateInBackground s) =
           onDataUpdated s @ [partitionItems openItems closedItems, partitionItems openItems closedItems]"
    and "onDataUpdated (run_background RefreshInBackground s) =
           onDataUpdated s @ [partitionItems openItems closedItems]"
    and "listCalls (fetchAndUpdateInBackground s) =
           listCalls s @ [listRequest ownr rep StateOpen, listRequest ownr rep StateClosed]"
  unfolding fetchAndUpdateInBackground_def run_background.simps
    fetchAndCacheIssues_success [OF repo oc o c]
  by (simp_all add: partitionItems_def)

lemma start_refreshInBackground_fields:
  "background (start_refreshInBackground s) = background s @ [RefreshInBackground]"
  "workspaceState (start_refreshInBackground s) = workspaceState s"
  "listCalls (start_refreshInBackground s) = listCalls s"
  "onDataUpdated (start_refreshInBackground s) = onDataUpdated s"
  by (simp_all add: start_refreshInBackground_def appendLine_def Let_def)

lemma handleCheckboxItem_error:
  "handleCheckboxItem x p = (Some e, p1) \<Longrightarrow> tree p1 = tree p \<and> treeDataChanged p1 = treeDataChanged p"
proof (cases x)
  case (Pair el st)
  assume "handleCheckboxItem x p = (Some e, p1)"
  then show ?thesis unfolding Pair
    by (cases el) (auto simp add: Let_def split: option.splits if_splits sum.splits prod.splits)
qed

lemma heap_ok_handleCheckboxItem:
  assumes ok: "heap_ok (tree p)" and item: "item < length (tree p)"
  shows "heap_ok (tree (snd (handleCheckboxItem (GitHubIssueElement item, st) p)))"
proof (cases "parent (tree p ! item)")
  case None
  with ok show ?thesis by simp
next
  case (Some par)
  let ?b = "updatedBody (tree p) item par st"
  let ?h2 = "modify item (\<lambda>n. n\<lparr>checked := (st = Checked)\<rparr>)
               (modify par (\<lambda>n. n\<lparr>issue := (issue n)\<lparr>body := Some ?b\<rparr>\<rparr>) (tree p))"
  have "same_shape (tree p) ?h2"
    by (rule same_shape_trans [OF same_shape_modify same_shape_modify]) simp_all
  then have ok2: "heap_ok ?h2" using ok by (rule same_shape_heap_ok)
  from heap_okD(3) [OF ok item Some] have "par < length ?h2" by simp
  from heap_ok_calculateProgress [OF ok2 this] ok Some show ?thesis
    by (auto simp add: Let_def split: option.splits sum.splits prod.splits)
qed

section \<open>A tree with four sub-items\<close>

definition body4 :: string where
  "body4 = ''- [x] a\<newline>- [ ] b\<newline>- [ ] c\<newline>- [ ] d''"

definition issue4 :: IssueRecord where
  "issue4 = \<lparr>number = Num 7, title = Some ''Release'', body = Some body4, state = Some ''open'',
              pull_request = False\<rparr>"

definition matches4 :: "rmatch list" where
  "matches4 =
    [\<lparr>captures = ['''', ''x'', ''a''], before = Some CHR ''a'',
      rest = ''\<newline>- [ ] b\<newline>- [ ] c\<newline>- [ ] d''\<rparr>,
     \<lparr>captures = ['''', '' '', ''b''], before = Some CHR ''b'',
      rest = ''\<newline>- [ ] c\<newline>- [ ] d''\<rparr>,
     \<lparr>captures = ['''', '' '', ''c''], before = Some CHR ''c'', rest = ''\<newline>- [ ] d''\<rparr>,
     \<lparr>captures = ['''', '' '', ''d''], before = Some CHR ''d'', rest = ''''\<rparr>]"

lemma checkbox_matches_body4: "checkbox_matches None body4 = matches4"
  by code_simp

definition tree4 :: "addr \<times> heap" where
  "tree4 = new_GitHubIssue ''Release'' CollapsibleNone issue4 Issue None False False []"

lemma tree4_eq:
  "tree4 = (0, root_node 0 ''Release'' issue4 Issue None False False matches4
               # child_nodes 0 (issue4\<lparr>body := Some body4\<rparr>) 0 matches4
               @ [bar_update 25 (progressBar_node 0 (Num 7))])"
proof -
  have ms: "checkbox_matches None (or_empty (body issue4)) = matches4"
    by (simp add: issue4_def or_empty_def checkbox_matches_body4)
  have ne: "matches4 \<noteq> []" by (simp add: matches4_def)
  have r: "checked_ratio matches4 = 25" by (simp add: checked_ratio_def matches4_def)
  show ?thesis
    unfolding tree4_def new_root [OF _ ms ne, of Issue, simplified] r
    by (simp add: issue4_def or_empty_def)
qed

lemma heap_ok_tree4: "heap_ok (snd tree4)"
  unfolding tree4_def by (rule heap_ok_new [OF heap_ok_Nil]) simp_all

lemma length_tree4: "length (snd tree4) = 6"
  by (simp add: tree4_eq matches4_def)

lemma tree4_node2:
  "isCheckbox (snd tree4 ! 2)" "\<not> checked (snd tree4 ! 2)" "parent (snd tree4 ! 2) = Some 0"
  by (simp_all add: tree4_eq matches4_def child_node_def leaf_node_def)

lemma tree4_flip2: "progress_value (flip_checked 2 (snd tree4)) 0 = 40"
  by (simp add: tree4_eq matches4_def child_node_def leaf_node_def root_node_def
      bar_update_def progressBar_node_def flip_checked_def progress_value_def)

lemma calculateProgress_idempotent_tree4:
  "node_ok (snd tree4) 0
   \<and> calculateProgress 0 (calculateProgress 0 (snd tree4)) = calculateProgress 0 (snd tree4)
   \<and> length (progress_children (calculateProgress 0 (snd tree4)) 0) = 1
   \<and> progress (calculateProgress 0 (calculateProgress 0 (snd tree4)) ! 0)
       = progress (calculateProgress 0 (snd tree4) ! 0)"
proof -
  have ok: "node_ok (snd tree4) 0"
    by (rule heap_okD(1) [OF heap_ok_tree4]) (simp add: length_tree4)
  from calculateProgress_idempotent [OF ok] ok show ?thesis by simp
qed

text \<open>
  The store on which the constructor of \<open>tree4\<close> calls \<open>calculateProgress\<close>, and the
  store after a further call.
\<close>

definition parsed4 :: heap where
  "parsed4 = new_parsed ''Release'' CollapsibleNone issue4 Issue None False False []"

lemma parsed4_eq:
  "parsed4 = (leaf_node ''Release'' issue4 Issue None False False)
               \<lparr>collapsibleState := Expanded, children := [1, 2, 3, 4]\<rparr>
             # child_nodes 0 (issue4\<lparr>body := Some body4\<rparr>) 0 matches4"
proof -
  have ms: "checkbox_matches None (or_empty (body issue4)) = matches4"
    by (simp add: issue4_def or_empty_def checkbox_matches_body4)
  have ne: "matches4 \<noteq> []" by (simp add: matches4_def)
  have u: "[Suc 0 ..< Suc 0 + length matches4] = [1, 2, 3, 4]"
    by (simp add: matches4_def upt_conv_Cons)
  show ?thesis
    unfolding parsed4_def new_parsed_eq [OF ms ne] using u
    by (simp add: issue4_def or_empty_def)
qed

lemma tree4_parsed4: "tree4 = (0, calculateProgress 0 parsed4)"
  unfolding tree4_def parsed4_def
  by (simp add: new_GitHubIssue_parsed parsed4_eq [unfolded parsed4_def])

lemma second_call4:
  "calculateProgress 0 (snd tree4)
   = (root_node 0 ''Release'' issue4 Issue None False False matches4)\<lparr>progress := 20\<rparr>
       # child_nodes 0 (issue4\<lparr>body := Some body4\<rparr>) 0 matches4
       @ [bar_update 20 (progressBar_node 0 (Num 7))]"
proof -
  have a: "0 < length (snd tree4)" by (simp add: length_tree4)
  have pb: "progressBar (snd tree4 ! 0) = Some 5"
    by (simp add: tree4_eq root_node_def matches4_def)
  have pv: "progress_value (snd tree4) 0 = 20"
    by (simp add: tree4_eq matches4_def child_node_def leaf_node_def root_node_def
      bar_update_def progressBar_node_def progress_value_def)
  show ?thesis
    unfolding calculateProgress_Some [OF a pb] pv
    by (simp add: tree4_eq matches4_def modify_def bar_update_def)
qed

section \<open>A body with an empty checkbox item\<close>

definition notes_body :: string where
  "notes_body = ''- [ ]\<newline>notes''"

definition notes_issue :: IssueRecord where
  "notes_issue = \<lparr>number = Num 12, title = Some ''Plan'', body = Some notes_body,
                   state = Some ''open'', pull_request = False\<rparr>"

definition notes_tree :: "addr \<times> heap" where
  "notes_tree = new_GitHubIssue ''Plan'' CollapsibleNone notes_issue Issue None False False []"

lemma checkbox_matches_notes:
  "checkbox_matches None notes_body =
     [\<lparr>captures = ['''', '' '', ''notes''], before = Some CHR ''s'', rest = ''''\<rparr>]"
  by code_simp

section \<open>A repository and its services\<close>

text \<open>
  The workspace is a clone of \<open>github.com/octo/demo\<close>. \<open>demo_service\<close> is the service
  of that workspace with an empty cache, given the Octokit client (if any).
\<close>

definition demo_remote :: GitRemote where
  "demo_remote = \<lparr>remote_name = ''origin'', refs_fetch = ''https://github.com/octo/demo.git'',
                   refs_push = ''https://github.com/octo/demo.git''\<rparr>"

text \<open>
  A remote that serves a listing in pages, as the GitHub API does: page \<open>p\<close> of a
  listing holds its items from index \<open>(p - 1) * per_page\<close> on, at most \<open>per_page\<close> of them.
\<close>

definition paged_client :: "IssueRecord list \<Rightarrow> IssueRecord list \<Rightarrow> Octokit" where
  "paged_client openItems closedItems =
     \<lparr>listForRepo = (\<lambda>request.
        Inr (take (per_page request)
               (drop ((case page request of None \<Rightarrow> 0 | Some p \<Rightarrow> p - 1) * per_page request)
                  (if item_state request = StateOpen then openItems else closedItems)))),
      issues_update = (\<lambda>request. None)\<rparr>"

definition numbered_issue :: "nat \<Rightarrow> bool \<Rightarrow> IssueRecord" where
  "numbered_issue n pr =
     \<lparr>number = Num (int n), title = Some ''item'', body = None, state = None, pull_request = pr\<rparr>"

definition demo_service :: "Octokit option \<Rightarrow> Service" where
  "demo_service client =
     \<lparr>workspaceRoot = Some ''/work/demo'', gitRemotes = Inr [demo_remote], octokit = client,
      workspaceState = Map.empty, outputChannel = [], errorMessages = [], clock = 1000,
      onDataUpdated = [], background = [], listCalls = []\<rparr>"

lemma demo_repo_match:
  "rx_exec repoRegex None ''https://github.com/octo/demo.git''
     = Some \<lparr>captures = [''octo'', ''demo''], before = Some CHR ''t'', rest = ''''\<rparr>"
  by code_simp

lemma demo_repo [simp]: "getGitHubRepoInfo (demo_service client) = Inr (''octo'', ''demo'')"
  by (simp add: getGitHubRepoInfo_def demo_service_def demo_remote_def or_empty_def demo_repo_match
      del: rx_exec.simps)

definition open_issues :: "nat \<Rightarrow> IssueRecord list" where
  "open_issues k = map (\<lambda>n. numbered_issue n False) [1 ..< Suc k]"

definition big_service :: Service where
  "big_service = demo_service (Some (paged_client (open_issues 101) []))"

lemma big_service_repo: "getGitHubRepoInfo big_service = Inr (''octo'', ''demo'')"
  by (simp add: big_service_def)

lemma big_service_octokit: "octokit big_service = Some (paged_client (open_issues 101) [])"
  by (simp add: big_service_def demo_service_def)

lemma take_open_issues: "k \<le> n \<Longrightarrow> take k (open_issues n) = open_issues k"
  by (simp add: open_issues_def take_map del: upt_Suc)

lemma big_service_open:
  "listForRepo (paged_client (open_issues 101) []) (listRequest ''octo'' ''demo'' StateOpen)
     = Inr (open_issues 100)"
  by (simp add: paged_client_def listRequest_def take_open_issues)

lemma big_service_closed:
  "listForRepo (paged_client (open_issues 101) []) (listRequest ''octo'' ''demo'' StateClosed) = Inr []"
  by (simp add: paged_client_def listRequest_def)

lemma partition_open_issues: "partitionItems (open_issues k) [] = (open_issues k, [])"
  by (simp add: partitionItems_def open_issues_def filter_map comp_def numbered_issue_def
      del: upt_Suc)

lemma big_service_fetch:
  "fetchAndCacheIssues big_service =
    (Inr (open_issues 100, []),
     big_service\<lparr>listCalls := [listRequest ''octo'' ''demo'' StateOpen,
                                 listRequest ''octo'' ''demo'' StateClosed],
       workspaceState := [cacheKeyOf ''octo'' ''demo'' \<mapsto>
          \<lparr>timestamp = 1000, issues = open_issues 100, pullRequests = []\<rparr>],
       outputChannel := [fetchedMessage ''octo'' ''demo'' (open_issues 100, [])],
       onDataUpdated := [(open_issues 100, [])]\<rparr>)"
  unfolding fetchAndCacheIssues_success
      [OF big_service_repo big_service_octokit big_service_open big_service_closed]
    partition_open_issues
  by (simp add: big_service_def demo_service_def)

definition mixed_service :: Service where
  "mixed_service =
     demo_service (Some (paged_client [numbered_issue 1 False, numbered_issue 2 True]
                                      [numbered_issue 3 True, numbered_issue 4 False]))"

lemma mixed_service_facts:
  "getGitHubRepoInfo mixed_service = Inr (''octo'', ''demo'')"
  "octokit mixed_service = Some (paged_client [numbered_issue 1 False, numbered_issue 2 True]
                                      [numbered_issue 3 True, numbered_issue 4 False])"
  "listForRepo (paged_client [numbered_issue 1 False, numbered_issue 2 True]
                                      [numbered_issue 3 True, numbered_issue 4 False])
      (listRequest ''octo'' ''demo'' StateOpen) = Inr [numbered_issue 1 False, numbered_issue 2 True]"
  "listForRepo (paged_client [numbered_issue 1 False, numbered_issue 2 True]
                                      [numbered_issue 3 True, numbered_issue 4 False])
      (listRequest ''octo'' ''demo'' StateClosed) = Inr [numbered_issue 3 True, numbered_issue 4 False]"
proof -
  show "getGitHubRepoInfo mixed_service = Inr (''octo'', ''demo'')"
    by (simp add: mixed_service_def)
qed (simp_all add: mixed_service_def demo_service_def paged_client_def listRequest_def)

definition cached_service :: "int \<Rightarrow> Service" where
  "cached_service now =
     (demo_service None)
       \<lparr>workspaceState := [''githubIssues_octo_demo'' \<mapsto>
            \<lparr>timestamp = 1000, issues = [numbered_issue 1 False], pullRequests = []\<rparr>],
        clock := now\<rparr>"

lemma cached_service_facts:
  "getCacheKey (cached_service now) = Inr ''githubIssues_octo_demo''"
  "workspaceState (cached_service now) ''githubIssues_octo_demo''
     = Some \<lparr>timestamp = 1000, issues = [numbered_issue 1 False], pullRequests = []\<rparr>"
  "clock (cached_service now) = now"
  "background (cached_service now) = []"
  "octokit (cached_service now) = None"
  by (simp_all add: cached_service_def getCacheKey_def getGitHubRepoInfo_def demo_service_def
      demo_remote_def or_empty_def demo_repo_match del: rx_exec.simps)

definition failing_client :: Octokit where
  "failing_client =
     \<lparr>listForRepo = (\<lambda>request. Inl (Error ''Not Found'')),
      issues_update = (\<lambda>request. Some (Error ''Validation Failed''))\<rparr>"

definition stale_service :: Service where
  "stale_service = (cached_service (1000 + 90 * 24 * 60 * 60 * 1000))\<lparr>octokit := Some failing_client\<rparr>"

lemma stale_service_facts:
  "getGitHubRepoInfo stale_service = Inr (''octo'', ''demo'')"
  "fetch_fails ''octo'' ''demo'' stale_service (Error ''Not Found'')"
  "cachedItems stale_service (cacheKeyOf ''octo'' ''demo'') = ([numbered_issue 1 False], [])"
  "workspaceState stale_service = workspaceState (cached_service 0)"
  by (simp_all add: stale_service_def cached_service_def getGitHubRepoInfo_def demo_service_def
      demo_remote_def or_empty_def demo_repo_match fetch_fails_def failing_client_def
      cachedItems_def cacheKeyOf_def del: rx_exec.simps)

definition demo_provider :: Provider where
  "demo_provider =
     \<lparr>tree = snd tree4, issueService = Some (demo_service (Some failing_client)),
      treeDataChanged = [], shownErrors = []\<rparr>"

section \<open>The claims\<close>

text \<open>
  C1. After \<open>calculateProgress\<close>, the progress of a node is
  \<open>100 * checkedCount / totalCount\<close> over its sub-items only, and a node with four
  sub-items, one of them checked, has progress 25. The constructor computes this value
  (\<open>progress_after_new\<close>, first part), and a node without sub-items gets no children and
  no progress node (\<open>new_leaf\<close>). But \<open>calculateProgress\<close> counts every element of
  \<open>children\<close>, and after the first call the progress node is one of them: every later call
  divides by one more than the number of sub-items (\<open>progress_after_new\<close>, second part).
  For the issue \<open>issue4\<close> (four sub-items, one checked) the constructor stores 25 and the
  next \<open>calculateProgress\<close> stores 20.
\<close>

theorem recompute_counts_progress_node:
  "checkbox_matches None (or_empty (body issue4)) = matches4
   \<and> length matches4 = 4
   \<and> length (filter (\<lambda>m. captures m ! 1 = ''x'') matches4) = 1
   \<and> progress (snd tree4 ! fst tree4) = 25
   \<and> progress (calculateProgress (fst tree4) (snd tree4) ! fst tree4) = 20"
proof -
  have ms: "checkbox_matches None (or_empty (body issue4)) = matches4"
    by (simp add: issue4_def or_empty_def checkbox_matches_body4)
  have ne: "matches4 \<noteq> []" by (simp add: matches4_def)
  have new: "new_GitHubIssue ''Release'' CollapsibleNone issue4 Issue None False False []
               = (fst tree4, snd tree4)" by (simp add: tree4_def)
  have c: "length (filter (\<lambda>m. captures m ! 1 = ''x'') matches4) = 1"
    and k: "length matches4 = 4" by (simp_all add: matches4_def)
  from progress_after_new [OF _ ms ne new] show ?thesis
    unfolding c k using ms by simp
qed

text \<open>
  C2. Two consecutive calls of \<open>calculateProgress\<close> on a node, with no change to its
  children in between, are to leave the same tree shape, one progress node and the same
  progress. The shape and the single progress node hold. The progress does not: the first
  call on a node with sub-items is the one the constructor makes, on the store
  \<open>new_parsed\<close>; it adds the progress node, and the second call counts that node among
  the children. For \<open>issue4\<close> the first call stores 25 and the second 20, over the same
  flags. This is the defect of C1 seen from the first call; from the second call on, the
  calls agree (\<open>calculateProgress_idempotent\<close>).
\<close>

theorem second_call_changes_progress:
  "new_GitHubIssue ''Release'' CollapsibleNone issue4 Issue None False False []
     = (0, calculateProgress 0 parsed4)
   \<and> progressBar (parsed4 ! 0) = None
   \<and> children (parsed4 ! 0) = [1, 2, 3, 4]
   \<and> map (\<lambda>c. checked (parsed4 ! c)) [1, 2, 3, 4] = [True, False, False, False]
   \<and> progress (calculateProgress 0 parsed4 ! 0) = 25
   \<and> progress (calculateProgress 0 (calculateProgress 0 parsed4) ! 0) = 20
   \<and> calculateProgress 0 (calculateProgress 0 parsed4) \<noteq> calculateProgress 0 parsed4
   \<and> children (calculateProgress 0 parsed4 ! 0) = [5, 1, 2, 3, 4]
   \<and> children (calculateProgress 0 (calculateProgress 0 parsed4) ! 0) = [5, 1, 2, 3, 4]
   \<and> progress_children (calculateProgress 0 (calculateProgress 0 parsed4)) 0 = [5]"
proof -
  have t: "calculateProgress 0 parsed4 = snd tree4" by (simp add: tree4_parsed4)
  have 1: "new_GitHubIssue ''Release'' CollapsibleNone issue4 Issue None False False []
     = (0, calculateProgress 0 parsed4)"
    using tree4_parsed4 by (simp add: tree4_def)
  have 2: "progressBar (parsed4 ! 0) = None" "children (parsed4 ! 0) = [1, 2, 3, 4]"
    by (simp_all add: parsed4_eq leaf_node_def)
  have 3: "map (\<lambda>c. checked (parsed4 ! c)) [1, 2, 3, 4] = [True, False, False, False]"
    by (simp add: parsed4_eq matches4_def child_node_def leaf_node_def)
  have 4: "progress (snd tree4 ! 0) = 25"
    by (simp add: tree4_eq root_node_def checked_ratio_def matches4_def)
  have 5: "progress (calculateProgress 0 (snd tree4) ! 0) = 20"
    unfolding second_call4 by simp
  have 6: "children (snd tree4 ! 0) = [5, 1, 2, 3, 4]"
    by (simp add: tree4_eq root_node_def matches4_def upt_conv_Cons)
  have 7: "children (calculateProgress 0 (snd tree4) ! 0) = [5, 1, 2, 3, 4]"
    unfolding second_call4 by (simp add: root_node_def matches4_def upt_conv_Cons)
  have 8: "progress_children (calculateProgress 0 (snd tree4)) 0 = [5]"
    unfolding progress_children_def 7 unfolding second_call4
    by (simp add: matches4_def child_node_def leaf_node_def bar_update_def progressBar_node_def)
  from 4 5 have 9: "calculateProgress 0 (snd tree4) \<noteq> snd tree4" by auto
  from 1 2 3 4 5 6 7 8 9 show ?thesis unfolding t by simp
qed

text \<open>
  C3. A cache entry written at time \<open>T\<close> and queried through \<open>getCachedOrFetchIssues\<close>.
  While the entry is younger than 30 minutes it is returned, nothing is fetched and the
  cache is not written; a background refresh is started exactly when the entry is older
  than 5 minutes, so at \<open>T\<close> + 10 minutes and at \<open>T\<close> + 20 minutes alike (one refresh),
  and not at \<open>T\<close> + 3 minutes. From 30 minutes on (at \<open>T\<close> + 40 minutes) the entry is not
  served from the cache: the method fetches synchronously when the service is
  authenticated and returns an empty result when it is not.
\<close>

theorem getCachedOrFetchIssues_by_age:
  assumes key: "getCacheKey s = Inr cacheKey"
    and cache: "workspaceState s cacheKey = Some cachedData"
  shows "if clock s - timestamp cachedData < 30 * 60 * 1000
         then fst (getCachedOrFetchIssues s) = Inr (issues cachedData, pullRequests cachedData)
            \<and> background (snd (getCachedOrFetchIssues s)) =
                background s @ (if 5 * 60 * 1000 < clock s - timestamp cachedData
                                then [RefreshInBackground] else [])
            \<and> workspaceState (snd (getCachedOrFetchIssues s)) = workspaceState s
            \<and> listCalls (snd (getCachedOrFetchIssues s)) = listCalls s
            \<and> onDataUpdated (snd (getCachedOrFetchIssues s)) = onDataUpdated s
         else getCachedOrFetchIssues s =
                (if octokit s = None
                 then (Inr ([], []), appendLine ''Not authenticated yet, returning empty result'' s)
                 else fetchAndCacheIssues s)"
  unfolding getCachedOrFetchIssues_def key
  by (simp add: cache Let_def start_refreshInBackground_fields appendLine_def)

theorem getCachedOrFetchIssues_by_age_witness:
  "fst (getCachedOrFetchIssues (cached_service (1000 + 3 * 60 * 1000))) = Inr ([numbered_issue 1 False], [])
   \<and> background (snd (getCachedOrFetchIssues (cached_service (1000 + 3 * 60 * 1000)))) = []
   \<and> fst (getCachedOrFetchIssues (cached_service (1000 + 20 * 60 * 1000))) = Inr ([numbered_issue 1 False], [])
   \<and> background (snd (getCachedOrFetchIssues (cached_service (1000 + 20 * 60 * 1000)))) = [RefreshInBackground]
   \<and> fst (getCachedOrFetchIssues (cached_service (1000 + 40 * 60 * 1000))) = Inr ([], [])"
  using getCachedOrFetchIssues_by_age [OF cached_service_facts(1,2), of "1000 + 3 * 60 * 1000"]
    getCachedOrFetchIssues_by_age [OF cached_service_facts(1,2), of "1000 + 20 * 60 * 1000"]
    getCachedOrFetchIssues_by_age [OF cached_service_facts(1,2), of "1000 + 40 * 60 * 1000"]
  by (simp add: cached_service_facts)

text \<open>
  The claim as stated has the query at \<open>T\<close> + 10 minutes served without any refresh. The
  entry of \<open>cached_service\<close> was written at 1000; queried 10 minutes later, it is returned
  and a background refresh is started.
\<close>

theorem refresh_at_ten_minutes:
  "fst (getCachedOrFetchIssues (cached_service (1000 + 10 * 60 * 1000))) = Inr ([numbered_issue 1 False], [])
   \<and> background (cached_service (1000 + 10 * 60 * 1000)) = []
   \<and> background (snd (getCachedOrFetchIssues (cached_service (1000 + 10 * 60 * 1000))))
       = [RefreshInBackground]"
  unfolding getCachedOrFetchIssues_def cached_service_facts
  by (simp add: cached_service_facts Let_def start_refreshInBackground_fields appendLine_def)

text \<open>
  C4. The sub-items of a constructed node are the matches of \<open>checkboxRegex\<close> in the body,
  in order, the i-th with number \<open>{parent}.{i}\<close>, the captured text as title, an empty
  body, and \<open>checked\<close> and \<open>state\<close> from the marker (\<open>subItems_new\<close>). A match is not
  confined to a line: \<open>\s\<close> also matches line breaks, so the whitespace after \<open>]\<close> (as
  that after \<open>-\<close>) may run over the end of the line. In the body \<open>notes_body\<close> neither
  line matches the pattern on its own, and the constructor still makes a sub-item, titled
  with the second line.
\<close>

theorem checkbox_match_spans_lines:
  "rx_exec checkboxRegex None ''- [ ]'' = None
   \<and> rx_exec checkboxRegex None ''notes'' = None
   \<and> map (\<lambda>n. (label n, number (issue n), checked n)) (subItems (snd notes_tree) (fst notes_tree))
       = [(''notes'', Str ''12.1'', False)]"
proof -
  have 1: "rx_exec checkboxRegex None ''- [ ]'' = None" by code_simp
  have 2: "rx_exec checkboxRegex None ''notes'' = None" by code_simp
  have new: "new_GitHubIssue ''Plan'' CollapsibleNone notes_issue Issue None False False []
             = (fst notes_tree, snd notes_tree)" by (simp add: notes_tree_def)
  have "toString_nat 1 = ''1''" "toString_int 12 = ''12''"
    by (simp_all add: toString_int_def toString_nat.simps digit_def)
  then have 3: "map (\<lambda>n. (label n, number (issue n), checked n)) (subItems (snd notes_tree) (fst notes_tree))
       = [(''notes'', Str ''12.1'', False)]"
    unfolding subItems_new [OF _ new, simplified]
    by (simp add: notes_issue_def or_empty_def checkbox_matches_notes child_node_def
        childIssue_def leaf_node_def)
  from 1 2 3 show ?thesis by simp
qed

text \<open>
  C5. A fetch whose listings succeed sends exactly two requests, one for the open and one
  for the closed items of the repository, each with \<open>per_page = 100\<close> and no page: it reads
  the first page of each listing and never asks for another. It partitions the items of the
  two answers by \<open>pull_request\<close> and writes them to the cache under the key of the
  repository, with the time read after both answers.
\<close>

theorem fetch_requests_one_page_each:
  assumes repo: "getGitHubRepoInfo s = Inr (ownr, rep)"
    and oc: "octokit s = Some client"
    and o: "listForRepo client (listRequest ownr rep StateOpen) = Inr openItems"
    and c: "listForRepo client (listRequest ownr rep StateClosed) = Inr closedItems"
  shows "fst (fetchAndCacheIssues s) = Inr (partitionItems openItems closedItems)
       \<and> listCalls (snd (fetchAndCacheIssues s)) =
           listCalls s @ [\<lparr>owner = ownr, repo = rep, item_state = StateOpen, per_page = 100, page = None\<rparr>,
                          \<lparr>owner = ownr, repo = rep, item_state = StateClosed, per_page = 100, page = None\<rparr>]
       \<and> workspaceState (snd (fetchAndCacheIssues s)) =
           (workspaceState s)(''githubIssues_'' @ ownr @ ''_'' @ rep \<mapsto>
              \<lparr>timestamp = clock s,
               issues = filter (\<lambda>item. \<not> pull_request item) (openItems @ closedItems),
               pullRequests = filter (\<lambda>item. pull_request item) (openItems @ closedItems)\<rparr>)"
  unfolding fetchAndCacheIssues_success [OF repo oc o c]
  by (simp add: listRequest_def cacheKeyOf_def partitionItems_def)

theorem fetch_requests_one_page_each_witness:
  "getGitHubRepoInfo big_service = Inr (''octo'', ''demo'')
   \<and> fst (fetchAndCacheIssues big_service) = Inr (open_issues 100, [])
   \<and> length (listCalls (snd (fetchAndCacheIssues big_service))) = 2"
proof -
  have lc: "listCalls big_service = []" by (simp add: big_service_def demo_service_def)
  from fetch_requests_one_page_each
    [OF big_service_repo big_service_octokit big_service_open big_service_closed]
  have "fst (fetchAndCacheIssues big_service) = Inr (partitionItems (open_issues 100) [])"
    and "length (listCalls (snd (fetchAndCacheIssues big_service))) = 2"
    unfolding lc by simp_all
  with big_service_repo show ?thesis unfolding partition_open_issues by simp
qed

text \<open>
  The claim as stated has every fetch retrieve all pages. \<open>big_service\<close> talks to a remote
  with 101 open issues, served 100 to a page: the fetch caches the first 100, and issue 101,
  which the remote holds on page 2, is not in the cache.
\<close>

theorem fetch_misses_later_pages:
  "fst (fetchAndCacheIssues big_service) = Inr (open_issues 100, [])
   \<and> workspaceState (snd (fetchAndCacheIssues big_service)) ''githubIssues_octo_demo''
       = Some \<lparr>timestamp = 1000, issues = open_issues 100, pullRequests = []\<rparr>
   \<and> numbered_issue 101 False \<in> set (open_issues 101)
   \<and> numbered_issue 101 False \<notin> set (open_issues 100)
   \<and> listForRepo (paged_client (open_issues 101) [])
         \<lparr>owner = ''octo'', repo = ''demo'', item_state = StateOpen, per_page = 100, page = Some 2\<rparr>
       = Inr [numbered_issue 101 False]"
proof -
  have "numbered_issue 101 False \<in> set (open_issues 101)"
    by (simp add: open_issues_def del: upt_Suc)
  moreover have "numbered_issue 101 False \<notin> set (open_issues 100)"
    by (auto simp add: open_issues_def numbered_issue_def simp del: upt_Suc)
  moreover have "drop 100 (open_issues 101) = [numbered_issue 101 False]"
    by (simp add: open_issues_def drop_map del: upt_Suc)
  then have "listForRepo (paged_client (open_issues 101) [])
         \<lparr>owner = ''octo'', repo = ''demo'', item_state = StateOpen, per_page = 100, page = Some 2\<rparr>
       = Inr [numbered_issue 101 False]"
    by (simp add: paged_client_def)
  ultimately show ?thesis
    unfolding big_service_fetch by (simp add: cacheKeyOf_def)
qed

text \<open>
  C6. \<open>onDataUpdated\<close> is to fire at most once per completed refresh. The refresh that
  \<open>loadCacheAndFetch\<close> starts (\<open>fetchAndUpdateInBackground\<close>) fires twice for one fetch: once
  inside \<open>fetchAndCacheIssues\<close> and once more with its result
  (\<open>fetchAndUpdateInBackground_success\<close>), while a refresh through \<open>refreshInBackground\<close>
  fires once. On \<open>mixed_service\<close>: one background task, one pair of listing requests, two
  events.
\<close>

theorem refresh_fires_twice:
  "background (snd (loadCacheAndFetch mixed_service)) = [FetchAndUpdateInBackground]
   \<and> onDataUpdated (snd (loadCacheAndFetch mixed_service)) = []
   \<and> onDataUpdated (run_background FetchAndUpdateInBackground (snd (loadCacheAndFetch mixed_service)))
       = [([numbered_issue 1 False, numbered_issue 4 False], [numbered_issue 2 True, numbered_issue 3 True]),
          ([numbered_issue 1 False, numbered_issue 4 False], [numbered_issue 2 True, numbered_issue 3 True])]
   \<and> listCalls (run_background FetchAndUpdateInBackground (snd (loadCacheAndFetch mixed_service)))
       = [\<lparr>owner = ''octo'', repo = ''demo'', item_state = StateOpen, per_page = 100, page = None\<rparr>,
          \<lparr>owner = ''octo'', repo = ''demo'', item_state = StateClosed, per_page = 100, page = None\<rparr>]
   \<and> onDataUpdated (run_background RefreshInBackground mixed_service)
       = [([numbered_issue 1 False, numbered_issue 4 False], [numbered_issue 2 True, numbered_issue 3 True])]"
proof -
  let ?s1 = "mixed_service\<lparr>background := [FetchAndUpdateInBackground]\<rparr>"
  have key: "getCacheKey mixed_service = Inr (cacheKeyOf ''octo'' ''demo'')"
    by (rule getCacheKey_resolved) (rule mixed_service_facts)
  have l: "loadCacheAndFetch mixed_service = (Inr ([], []), ?s1)"
    unfolding loadCacheAndFetch_def getCachedIssues_def key
    by (simp add: mixed_service_def demo_service_def)
  have p: "partitionItems [numbered_issue 1 False, numbered_issue 2 True]
                          [numbered_issue 3 True, numbered_issue 4 False]
           = ([numbered_issue 1 False, numbered_issue 4 False], [numbered_issue 2 True, numbered_issue 3 True])"
    by (simp add: partitionItems_def numbered_issue_def)
  have e: "onDataUpdated mixed_service = []" "onDataUpdated ?s1 = []" "listCalls ?s1 = []"
    by (simp_all add: mixed_service_def demo_service_def)
  have f: "getGitHubRepoInfo ?s1 = Inr (''octo'', ''demo'')"
    "octokit ?s1 = Some (paged_client [numbered_issue 1 False, numbered_issue 2 True]
                                      [numbered_issue 3 True, numbered_issue 4 False])"
    using mixed_service_facts(1,2) by simp_all
  from fetchAndUpdateInBackground_success(1) [OF f mixed_service_facts(3,4)]
    fetchAndUpdateInBackground_success(2) [OF mixed_service_facts]
    fetchAndUpdateInBackground_success(3) [OF f mixed_service_facts(3,4)]
  show ?thesis unfolding l p e by (simp add: e listRequest_def)
qed

text \<open>
  C7. When the repository is resolved and the remote fetch of \<open>fetchAndCacheIssues\<close> fails
  (no client, or an error from either listing), the method does not raise: it returns the
  items of the cache entry, whatever its age, or the empty result when there is none. The
  cache is left as it was, no event is fired, and the error is written to the output
  channel and shown as a message. The workspace folder and its git remotes are part of the
  state, so the repository resolves again inside \<open>getFallbackItems\<close>.
\<close>

theorem fetch_failure_falls_back:
  assumes repo: "getGitHubRepoInfo s = Inr (ownr, rep)" and fails: "fetch_fails ownr rep s e"
  shows "fst (fetchAndCacheIssues s) = Inr (cachedItems s (cacheKeyOf ownr rep))
       \<and> workspaceState (snd (fetchAndCacheIssues s)) = workspaceState s
       \<and> onDataUpdated (snd (fetchAndCacheIssues s)) = onDataUpdated s
       \<and> errorMessages (snd (fetchAndCacheIssues s)) =
           errorMessages s @ [''Error fetching GitHub issues and pull requests. Check output for details.'']
       \<and> take (Suc (length (outputChannel s))) (outputChannel (snd (fetchAndCacheIssues s)))
           = outputChannel s @ [fetchErrorLine e]"
proof -
  from fetchAndCacheIssues_failure [OF repo fails] obtain s1
    where eq: "fetchAndCacheIssues s = fetchAndCacheIssues_catch e s1"
      and r1: "getGitHubRepoInfo s1 = Inr (ownr, rep)"
      and same: "workspaceState s1 = workspaceState s" "onDataUpdated s1 = onDataUpdated s"
        "errorMessages s1 = errorMessages s" "outputChannel s1 = outputChannel s"
    by blast
  have ci: "cachedItems s1 k = cachedItems s k" for k by (simp add: cachedItems_def same)
  from fetchAndCacheIssues_catch_resolved [OF r1, of e] show ?thesis
    unfolding eq same ci by simp
qed

theorem fetch_failure_falls_back_witness:
  "getGitHubRepoInfo stale_service = Inr (''octo'', ''demo'')
   \<and> fetch_fails ''octo'' ''demo'' stale_service (Error ''Not Found'')
   \<and> clock stale_service - 1000 = 90 * 24 * 60 * 60 * 1000
   \<and> fst (fetchAndCacheIssues stale_service) = Inr ([numbered_issue 1 False], [])
   \<and> onDataUpdated (snd (fetchAndCacheIssues stale_service)) = []
   \<and> fst (fetchAndCacheIssues (demo_service None)) = Inr ([], [])"
proof -
  have 1: "getGitHubRepoInfo (demo_service None) = Inr (''octo'', ''demo'')" by simp
  have 2: "fetch_fails ''octo'' ''demo'' (demo_service None) (Error ''GitHub API is not initialized'')"
    by (simp add: fetch_fails_def demo_service_def)
  have 3: "cachedItems (demo_service None) (cacheKeyOf ''octo'' ''demo'') = ([], [])"
    by (simp add: cachedItems_def demo_service_def)
  have 4: "clock stale_service - 1000 = 90 * 24 * 60 * 60 * 1000"
    "onDataUpdated stale_service = []"
    by (simp_all add: stale_service_def cached_service_def demo_service_def)
  from fetch_failure_falls_back [OF stale_service_facts(1,2)]
    fetch_failure_falls_back [OF 1 2]
  show ?thesis
    unfolding stale_service_facts(3) 3 using stale_service_facts(1,2) 4 by simp
qed

text \<open>
  C8. \<open>toggleCheckbox\<close> on a sub-item flips its \<open>checked\<close> flag, leaves the flag of every
  other node as it was, and, when the node has a parent, is followed by
  \<open>calculateProgress\<close> on the parent, whose progress is then the value computed from the
  flipped flags; on a node that is not a sub-item it changes nothing.
\<close>

theorem toggleCheckbox_contract:
  assumes ok: "heap_ok h" and a: "this < length h"
  shows "if isCheckbox (h ! this)
         then checked (toggleCheckbox this h ! this) = (\<not> checked (h ! this))
            \<and> list_all (\<lambda>c. c = this \<or> checked (toggleCheckbox this h ! c) = checked (h ! c))
                  [0 ..< length h]
            \<and> (case parent (h ! this) of
                  None \<Rightarrow> toggleCheckbox this h = flip_checked this h
                | Some p \<Rightarrow> toggleCheckbox this h = calculateProgress p (flip_checked this h)
                           \<and> progress (toggleCheckbox this h ! p)
                               = progress_value (flip_checked this h) p)
         else toggleCheckbox this h = h"
proof (cases "isCheckbox (h ! this)")
  case False
  then show ?thesis by (simp add: toggleCheckbox_def)
next
  case True
  let ?f = "flip_checked this h"
  have len: "length ?f = length h" by (simp add: flip_checked_def)
  have fa: "checked (?f ! this) = (\<not> checked (h ! this))" using a by (simp add: flip_checked_def)
  have fc: "checked (?f ! c) = checked (h ! c)" if "c \<noteq> this" for c
    using that by (simp add: flip_checked_def)
  show ?thesis
  proof (cases "parent (h ! this)")
    case None
    with True toggleCheckbox_eq [OF a True] fa fc show ?thesis
      by (auto simp add: list_all_iff)
  next
    case (Some p)
    from heap_okD(3) [OF ok a Some] have p: "p < length ?f" by (simp add: len)
    have eq: "toggleCheckbox this h = calculateProgress p ?f"
      using toggleCheckbox_eq [OF a True] Some by simp
    have "checked (calculateProgress p ?f ! c) = checked (?f ! c)" if "c < length h" for c
      using checked_calculateProgress [OF p, of c] that by (simp add: len)
    with True Some fa fc a progress_calculateProgress [OF p] show ?thesis
      unfolding eq by (auto simp add: list_all_iff)
  qed
qed

theorem toggleCheckbox_contract_witness:
  "heap_ok (snd tree4) \<and> 2 < length (snd tree4)
   \<and> checked (toggleCheckbox 2 (snd tree4) ! 2)
   \<and> progress (toggleCheckbox 2 (snd tree4) ! 0) = 40
   \<and> toggleCheckbox 0 (snd tree4) = snd tree4"
proof -
  have 2: "2 < length (snd tree4)" and 0: "0 < length (snd tree4)" by (simp_all add: length_tree4)
  have root: "\<not> isCheckbox (snd tree4 ! 0)"
    by (simp add: tree4_eq root_node_def leaf_node_def)
  from toggleCheckbox_contract [OF heap_ok_tree4 2] toggleCheckbox_contract [OF heap_ok_tree4 0]
  show ?thesis using heap_ok_tree4 2 root tree4_node2 tree4_flip2 by auto
qed

text \<open>
  C9. When the remote update of the body fails while \<open>handleCheckboxChange\<close> writes a toggled
  checkbox back, the handler ends with that error and the tree is as it was before: the
  body of the parent, the \<open>checked\<close> flag of the item and the progress of the parent keep
  their values, and no tree change is announced. The items after the failing one are not
  handled.
\<close>

theorem write_back_failure_keeps_tree:
  assumes svc: "issueService p = Some s"
    and cb: "isCheckbox (tree p ! item)" and par: "parent (tree p ! item) = Some par"
    and repo: "getGitHubRepoInfo s = Inr (ownr, rep)"
    and fail: "fst (updateIssueBody ownr rep (number (issue (tree p ! par)))
                      (updatedBody (tree p) item par st) s) = Inl e"
  shows "fst (handleCheckboxChange ((GitHubIssueElement item, st) # others) p) = Some e
       \<and> tree (snd (handleCheckboxChange ((GitHubIssueElement item, st) # others) p)) = tree p
       \<and> body (issue (tree (snd (handleCheckboxChange ((GitHubIssueElement item, st) # others) p)) ! par))
           = body (issue (tree p ! par))
       \<and> checked (tree (snd (handleCheckboxChange ((GitHubIssueElement item, st) # others) p)) ! item)
           = checked (tree p ! item)
       \<and> progress (tree (snd (handleCheckboxChange ((GitHubIssueElement item, st) # others) p)) ! par)
           = progress (tree p ! par)
       \<and> treeDataChanged (snd (handleCheckboxChange ((GitHubIssueElement item, st) # others) p))
           = treeDataChanged p"
proof -
  obtain r s1 where u: "updateIssueBody ownr rep (number (issue (tree p ! par)))
                      (updatedBody (tree p) item par st) s = (r, s1)" by fastforce
  with fail have r: "r = Inl e" by simp
  have "handleCheckboxItem (GitHubIssueElement item, st) p = (Some e, p\<lparr>issueService := Some s1\<rparr>)"
    using svc cb par repo u r by (simp add: Let_def)
  then show ?thesis by simp
qed

theorem write_back_failure_keeps_tree_witness:
  "fst (handleCheckboxChange [(GitHubIssueElement 2, Checked)] demo_provider)
     = Some (Error ''Validation Failed'')
   \<and> tree (snd (handleCheckboxChange [(GitHubIssueElement 2, Checked)] demo_provider)) = snd tree4
   \<and> \<not> checked (tree (snd (handleCheckboxChange [(GitHubIssueElement 2, Checked)] demo_provider)) ! 2)
   \<and> progress (tree (snd (handleCheckboxChange [(GitHubIssueElement 2, Checked)] demo_provider)) ! 0) = 25"
proof -
  have svc: "issueService demo_provider = Some (demo_service (Some failing_client))"
    and t: "tree demo_provider = snd tree4"
    by (simp_all add: demo_provider_def)
  have cb: "isCheckbox (tree demo_provider ! 2)" and par: "parent (tree demo_provider ! 2) = Some 0"
    and chk: "\<not> checked (tree demo_provider ! 2)"
    unfolding t by (rule tree4_node2)+
  have repo: "getGitHubRepoInfo (demo_service (Some failing_client)) = Inr (''octo'', ''demo'')"
    by simp
  have fail: "fst (updateIssueBody ''octo'' ''demo'' (number (issue (tree demo_provider ! 0)))
                 (updatedBody (tree demo_provider) 2 0 Checked) (demo_service (Some failing_client)))
              = Inl (Error ''Validation Failed'')"
    by (simp add: updateIssueBody_def demo_service_def failing_client_def)
  have p: "progress (snd tree4 ! 0) = 25"
    by (simp add: tree4_eq root_node_def checked_ratio_def matches4_def)
  from write_back_failure_keeps_tree [OF svc cb par repo fail, of "[]"] chk p
  show ?thesis unfolding t by simp
qed

text \<open>
  C10. After a fetch whose listings succeed, the cache entry of the repository holds the
  items without \<open>pull_request\<close> in \<open>issues\<close> and those with it in \<open>pullRequests\<close>: together
  they are the fetched items, each in exactly one of the two, and in each sequence the items
  of the open listing come before those of the closed listing, in the order of the answers.
\<close>

theorem cached_partition:
  assumes repo: "getGitHubRepoInfo s = Inr (ownr, rep)"
    and oc: "octokit s = Some client"
    and o: "listForRepo client (listRequest ownr rep StateOpen) = Inr openItems"
    and c: "listForRepo client (listRequest ownr rep StateClosed) = Inr closedItems"
  shows "case workspaceState (snd (fetchAndCacheIssues s)) (''githubIssues_'' @ ownr @ ''_'' @ rep) of
           None \<Rightarrow> False
         | Some cachedData \<Rightarrow>
             issues cachedData = filter (\<lambda>item. \<not> pull_request item) openItems
                                   @ filter (\<lambda>item. \<not> pull_request item) closedItems
           \<and> pullRequests cachedData = filter pull_request openItems @ filter pull_request closedItems
           \<and> mset (issues cachedData) + mset (pullRequests cachedData) = mset (openItems @ closedItems)
           \<and> list_all (\<lambda>item. \<not> pull_request item) (issues cachedData)
           \<and> list_all pull_request (pullRequests cachedData)
           \<and> fst (fetchAndCacheIssues s) = Inr (issues cachedData, pullRequests cachedData)"
proof -
  have "mset (filter (\<lambda>item. \<not> pull_request item) xs) + mset (filter pull_request xs) = mset xs"
    for xs :: "IssueRecord list"
    by (induction xs) simp_all
  from this [of "openItems @ closedItems"] show ?thesis
    unfolding fetchAndCacheIssues_success [OF repo oc o c]
    by (auto simp add: cacheKeyOf_def partitionItems_def list_all_iff)
qed

theorem cached_partition_witness:
  "workspaceState (snd (fetchAndCacheIssues mixed_service)) ''githubIssues_octo_demo''
     = Some \<lparr>timestamp = 1000, issues = [numbered_issue 1 False, numbered_issue 4 False],
             pullRequests = [numbered_issue 2 True, numbered_issue 3 True]\<rparr>"
proof -
  from cached_partition [OF mixed_service_facts]
  obtain cachedData
    where "workspaceState (snd (fetchAndCacheIssues mixed_service)) ''githubIssues_octo_demo''
             = Some cachedData"
      and "issues cachedData = [numbered_issue 1 False, numbered_issue 4 False]"
      and "pullRequests cachedData = [numbered_issue 2 True, numbered_issue 3 True]"
    by (auto simp add: numbered_issue_def split: option.splits)
  moreover have "timestamp cachedData = 1000"
    using calculation(1) unfolding fetchAndCacheIssues_success [OF mixed_service_facts]
    by (auto simp add: cacheKeyOf_def mixed_service_def demo_service_def)
  ultimately show ?thesis by simp
qed

end
